theory Spec2Isabelle
  imports Main "HOL-Library.Word"
begin

unbundle bit_operations_syntax

section \<open>Wire grammar of the codec\<close>

text \<open>
  A Go byte slice is modelled by the list of its elements; the nil slice and the empty
  slice are both \<open>[]\<close> (the code only ever asks for their length). A slice expression
  \<open>b[n:]\<close> is \<open>drop n b\<close> and \<open>b[0:n]\<close> is \<open>take n b\<close>; every such expression of
  the source sits behind a length check, which the model keeps.
\<close>

type_synonym byte = "8 word"

datatype Type =
    InvalidType | StrType | BinType | MapType | ArrayType | Float64Type | Float32Type
  | BoolType | IntType | UintType | NilType | ExtensionType | Complex64Type
  | Complex128Type | TimeType

text \<open>
  The error values of the decoder. \<open>TypeError m e\<close> carries the fields \<open>Method\<close> and
  \<open>Encoded\<close>; the overflow errors carry the offending value and the bit size that
  failed. \<open>IntOverflow\<close> holds an int64, kept as the 64-bit word of its two's complement.
  \<open>EOF\<close> is \<open>io.EOF\<close>; \<open>ErrIO k\<close> stands for any other error of the underlying
  reader or writer, told apart by a number.
\<close>

datatype error =
    ErrShortBytes
  | TypeError Type Type
  | InvalidPrefixError byte
  | UintOverflow "64 word" nat
  | IntOverflow "64 word" nat
  | fatal
  | EOF
  | ErrIO nat

subsection \<open>Prefix bytes\<close>

definition mnil :: byte where "mnil = 0xc0"
definition mfalse :: byte where "mfalse = 0xc2"
definition mtrue :: byte where "mtrue = 0xc3"
definition mbin8 :: byte where "mbin8 = 0xc4"
definition mbin16 :: byte where "mbin16 = 0xc5"
definition mbin32 :: byte where "mbin32 = 0xc6"
definition mext8 :: byte where "mext8 = 0xc7"
definition mext16 :: byte where "mext16 = 0xc8"
definition mext32 :: byte where "mext32 = 0xc9"
definition mfloat32 :: byte where "mfloat32 = 0xca"
definition mfloat64 :: byte where "mfloat64 = 0xcb"
definition muint8 :: byte where "muint8 = 0xcc"
definition muint16 :: byte where "muint16 = 0xcd"
definition muint32 :: byte where "muint32 = 0xce"
definition muint64 :: byte where "muint64 = 0xcf"
definition mint8 :: byte where "mint8 = 0xd0"
definition mint16 :: byte where "mint16 = 0xd1"
definition mint32 :: byte where "mint32 = 0xd2"
definition mint64 :: byte where "mint64 = 0xd3"
definition mfixext1 :: byte where "mfixext1 = 0xd4"
definition mfixext2 :: byte where "mfixext2 = 0xd5"
definition mfixext4 :: byte where "mfixext4 = 0xd6"
definition mfixext8 :: byte where "mfixext8 = 0xd7"
definition mfixext16 :: byte where "mfixext16 = 0xd8"
definition mstr8 :: byte where "mstr8 = 0xd9"
definition mstr16 :: byte where "mstr16 = 0xda"
definition mstr32 :: byte where "mstr32 = 0xdb"
definition marray16 :: byte where "marray16 = 0xdc"
definition marray32 :: byte where "marray32 = 0xdd"
definition mmap16 :: byte where "mmap16 = 0xde"
definition mmap32 :: byte where "mmap32 = 0xdf"

lemmas prefix_defs =
  mnil_def mfalse_def mtrue_def mbin8_def mbin16_def mbin32_def mext8_def mext16_def
  mext32_def mfloat32_def mfloat64_def muint8_def muint16_def muint32_def muint64_def
  mint8_def mint16_def mint32_def mint64_def mfixext1_def mfixext2_def mfixext4_def
  mfixext8_def mfixext16_def mstr8_def mstr16_def mstr32_def marray16_def marray32_def
  mmap16_def mmap32_def

text \<open>
  Modelled from the spec: the prefix predicates and value extractors of the codec's
  definitions file, which is not among the sources. Section 4.1 gives the ranges:
  positive fixint \<open>0x00..0x7f\<close>, negative fixint \<open>0xe0..0xff\<close>, fixstr
  \<open>0xa0..0xbf\<close>, fixarray \<open>0x90..0x9f\<close>, fixmap \<open>0x80..0x8f\<close>, and says that the
  extractors are the low-bit masks.
\<close>

definition isfixint :: "byte \<Rightarrow> bool" where "isfixint b = (drop_bit 7 b = 0)"
definition isnfixint :: "byte \<Rightarrow> bool" where "isnfixint b = (b AND 0xe0 = 0xe0)"
definition isfixmap :: "byte \<Rightarrow> bool" where "isfixmap b = (b AND 0xf0 = 0x80)"
definition isfixarray :: "byte \<Rightarrow> bool" where "isfixarray b = (b AND 0xf0 = 0x90)"
definition isfixstr :: "byte \<Rightarrow> bool" where "isfixstr b = (b AND 0xe0 = 0xa0)"

definition rfixint :: "byte \<Rightarrow> byte" where "rfixint b = b AND 0x7f"
definition rnfixint :: "byte \<Rightarrow> byte" where "rnfixint b = b"
definition rfixmap :: "byte \<Rightarrow> byte" where "rfixmap b = b AND 0x0f"
definition rfixarray :: "byte \<Rightarrow> byte" where "rfixarray b = b AND 0x0f"
definition rfixstr :: "byte \<Rightarrow> byte" where "rfixstr b = b AND 0x1f"

subsection \<open>The prefix table\<close>

text \<open>
  An entry of the table: the size of the object's fixed part, the length mode and the
  logical type. The mode is a signed byte in the source: a value \<open>\<ge> 0\<close> is the number of
  further objects of a fixed composite; the negative values name the variable forms.
\<close>

record bytespec =
  size :: nat
  extra :: int
  typ' :: Type

definition constsize :: int where "constsize = 0"
definition extra8 :: int where "extra8 = - 1"
definition extra16 :: int where "extra16 = - 2"
definition extra32 :: int where "extra32 = - 3"
definition map16v :: int where "map16v = - 4"
definition map32v :: int where "map32v = - 5"
definition array16v :: int where "array16v = - 6"
definition array32v :: int where "array32v = - 7"

lemmas mode_defs =
  constsize_def extra8_def extra16_def extra32_def map16v_def map32v_def array16v_def
  array32v_def

definition spec_of :: "nat \<Rightarrow> int \<Rightarrow> Type \<Rightarrow> bytespec" where
  "spec_of n m t = \<lparr>size = n, extra = m, typ' = t\<rparr>"

text \<open>
  Modelled from the spec: the 256-entry prefix table \<open>sizes\<close>, which the sources use but
  do not contain. Section 3 describes an entry as logical type, total prefix size and
  length mode (constant size; size in the next 1, 2 or 4 bytes; map header with N pairs,
  expanding to \<open>2 * N\<close> objects; array header with N elements; invalid), and section 4.1
  fixes the prefix bytes. A fixstr entry counts its body in the size, a fixmap entry has
  mode \<open>2 * N\<close> and a fixarray entry mode \<open>N\<close>; an unmapped byte has size 0 and type
  \<open>InvalidType\<close>.
\<close>

definition sizes :: "byte \<Rightarrow> bytespec" where
  "sizes b =
    (if isfixint b then spec_of 1 constsize IntType
     else if isfixmap b then spec_of 1 (2 * uint (rfixmap b)) MapType
     else if isfixarray b then spec_of 1 (uint (rfixarray b)) ArrayType
     else if isfixstr b then spec_of (1 + unat (rfixstr b)) constsize StrType
     else if isnfixint b then spec_of 1 constsize IntType
     else if b = mnil then spec_of 1 constsize NilType
     else if b = mfalse then spec_of 1 constsize BoolType
     else if b = mtrue then spec_of 1 constsize BoolType
     else if b = mbin8 then spec_of 2 extra8 BinType
     else if b = mbin16 then spec_of 3 extra16 BinType
     else if b = mbin32 then spec_of 5 extra32 BinType
     else if b = mext8 then spec_of 3 extra8 ExtensionType
     else if b = mext16 then spec_of 4 extra16 ExtensionType
     else if b = mext32 then spec_of 6 extra32 ExtensionType
     else if b = mfloat32 then spec_of 5 constsize Float32Type
     else if b = mfloat64 then spec_of 9 constsize Float64Type
     else if b = muint8 then spec_of 2 constsize UintType
     else if b = muint16 then spec_of 3 constsize UintType
     else if b = muint32 then spec_of 5 constsize UintType
     else if b = muint64 then spec_of 9 constsize UintType
     else if b = mint8 then spec_of 2 constsize IntType
     else if b = mint16 then spec_of 3 constsize IntType
     else if b = mint32 then spec_of 5 constsize IntType
     else if b = mint64 then spec_of 9 constsize IntType
     else if b = mfixext1 then spec_of 3 constsize ExtensionType
     else if b = mfixext2 then spec_of 4 constsize ExtensionType
     else if b = mfixext4 then spec_of 6 constsize ExtensionType
     else if b = mfixext8 then spec_of 10 constsize ExtensionType
     else if b = mfixext16 then spec_of 18 constsize ExtensionType
     else if b = mstr8 then spec_of 2 extra8 StrType
     else if b = mstr16 then spec_of 3 extra16 StrType
     else if b = mstr32 then spec_of 5 extra32 StrType
     else if b = marray16 then spec_of 3 array16v ArrayType
     else if b = marray32 then spec_of 5 array32v ArrayType
     else if b = mmap16 then spec_of 3 map16v MapType
     else if b = mmap32 then spec_of 5 map32v MapType
     else spec_of 0 constsize InvalidType)"

text \<open>
  Modelled from the spec: \<open>getType\<close> and \<open>badPrefix\<close> of the codec's table and error
  files (not among the sources). Section 7: a \<open>TypeError\<close> says that the caller asked for
  one type and the prefix denotes another; \<open>InvalidPrefix\<close> says that the prefix byte is
  unmapped.
\<close>

definition getType :: "byte \<Rightarrow> Type" where
  "getType v = typ' (sizes v)"

definition badPrefix :: "Type \<Rightarrow> byte \<Rightarrow> error" where
  "badPrefix want lead =
    (let t = typ' (sizes lead) in
     if t = InvalidType then InvalidPrefixError lead else TypeError want t)"

subsection \<open>Big-endian integers\<close>

text \<open>
  The big-endian value of a run of bytes, the first byte the most significant:
  \<open>binary.BigEndian.Uint16\<close>, \<open>Uint32\<close> and \<open>Uint64\<close> of Go's library at the widths
  16, 32 and 64.
\<close>

definition be_word :: "byte list \<Rightarrow> 'a::len word" where
  "be_word bs = foldl (\<lambda>acc x. push_bit 8 acc OR ucast x) 0 bs"

definition big_Uint16 :: "byte list \<Rightarrow> 16 word" where
  "big_Uint16 bs = be_word (take 2 bs)"

definition big_Uint32 :: "byte list \<Rightarrow> 32 word" where
  "big_Uint32 bs = be_word (take 4 bs)"

definition big_Uint64 :: "byte list \<Rightarrow> 64 word" where
  "big_Uint64 bs = be_word (take 8 bs)"

text \<open>
  Modelled from the spec: the fixed-width integer decoders of the codec's integers file
  (not among the sources). Section 4.1: integer decoders for 8/16/32/64-bit signed and
  unsigned big-endian values; they read the bytes that follow the prefix byte. A signed
  value is the word of its two's complement, widened by \<open>scast\<close> where the source
  converts it to int64; an unsigned one is widened by \<open>ucast\<close>.
\<close>

definition getMint8 :: "byte list \<Rightarrow> 8 word" where "getMint8 b = b ! 1"
definition getMuint8 :: "byte list \<Rightarrow> 8 word" where "getMuint8 b = b ! 1"
definition getMint16 :: "byte list \<Rightarrow> 16 word" where "getMint16 b = big_Uint16 (drop 1 b)"
definition getMuint16 :: "byte list \<Rightarrow> 16 word" where "getMuint16 b = big_Uint16 (drop 1 b)"
definition getMint32 :: "byte list \<Rightarrow> 32 word" where "getMint32 b = big_Uint32 (drop 1 b)"
definition getMuint32 :: "byte list \<Rightarrow> 32 word" where "getMuint32 b = big_Uint32 (drop 1 b)"
definition getMint64 :: "byte list \<Rightarrow> 64 word" where "getMint64 b = big_Uint64 (drop 1 b)"
definition getMuint64 :: "byte list \<Rightarrow> 64 word" where "getMuint64 b = big_Uint64 (drop 1 b)"

section \<open>Readers over a byte slice\<close>

text \<open>
  A reader returns all of its results together, as the Go function does: the value, the
  remaining bytes and the error (\<open>None\<close> for nil). A bare \<open>return\<close> after \<open>err = ...\<close>
  returns the named results as they stand, the nil slice for those not yet assigned.
  Go's \<open>int\<close> is taken to be 64 bits wide, so that a length read from the wire keeps
  its value when it is converted; lengths are natural numbers here.
\<close>

subsection \<open>Strings, binaries and map keys\<close>

definition ReadStringZC :: "byte list \<Rightarrow> byte list \<times> byte list \<times> error option" where
  "ReadStringZC b =
    (let l = length b in
     if l < 1 then ([], [], Some ErrShortBytes)
     else
       let lead = b ! 0 in
       let hdr =
         (if isfixstr lead then Inr (unat (rfixstr lead), drop 1 b)
          else if lead = mstr8 then
            (if l < 2 then Inl ErrShortBytes else Inr (unat (b ! 1), drop 2 b))
          else if lead = mstr16 then
            (if l < 3 then Inl ErrShortBytes
             else Inr (unat (big_Uint16 (drop 1 b)), drop 3 b))
          else if lead = mstr32 then
            (if l < 5 then Inl ErrShortBytes
             else Inr (unat (big_Uint32 (drop 1 b)), drop 5 b))
          else Inl (TypeError StrType (getType lead)))
       in case hdr of
            Inl e \<Rightarrow> ([], [], Some e)
          | Inr (read, b') \<Rightarrow>
              if length b' < read then ([], [], Some ErrShortBytes)
              else (take read b', drop read b', None))"

text \<open>
  \<open>readBytesBytes\<close> with its scratch buffer: the value returned is the payload in
  either mode (a view of the input when \<open>zc\<close> holds, a copy otherwise), so the model
  returns the same list in both.
\<close>

definition readBytesBytes ::
  "byte list \<Rightarrow> byte list \<Rightarrow> bool \<Rightarrow> byte list \<times> byte list \<times> error option" where
  "readBytesBytes b scratch zc =
    (let l = length b in
     if l < 1 then ([], [], Some ErrShortBytes)
     else
       let lead = b ! 0 in
       let hdr =
         (if lead = mbin8 then
            (if l < 2 then Inl ErrShortBytes else Inr (unat (b ! 1), drop 2 b))
          else if lead = mbin16 then
            (if l < 3 then Inl ErrShortBytes
             else Inr (unat (big_Uint16 (drop 1 b)), drop 3 b))
          else if lead = mbin32 then
            (if l < 5 then Inl ErrShortBytes
             else Inr (unat (big_Uint32 (drop 1 b)), drop 5 b))
          else Inl (badPrefix BinType lead))
       in case hdr of
            Inl e \<Rightarrow> ([], [], Some e)
          | Inr (read, b') \<Rightarrow>
              if length b' < read then ([], [], Some ErrShortBytes)
              else if zc then (take read b', drop read b', None)
              else (take read b', drop read b', None))"

definition ReadBytesZC :: "byte list \<Rightarrow> byte list \<times> byte list \<times> error option" where
  "ReadBytesZC b = readBytesBytes b [] True"

text \<open>
  \<open>ReadMapKeyZC\<close>. The source's first statement is \<open>o, b, err := ReadStringZC(b)\<close>: the
  parameter \<open>b\<close> is in scope, so the short declaration assigns to it, and from there on
  \<open>b\<close> is the second result of \<open>ReadStringZC\<close>. The model names that value \<open>b'\<close>.
\<close>

definition ReadMapKeyZC :: "byte list \<Rightarrow> byte list \<times> byte list \<times> error option" where
  "ReadMapKeyZC b =
    (case ReadStringZC b of
       (o', b', None) \<Rightarrow> (o', b', None)
     | (o', b', Some err) \<Rightarrow>
         (case err of
            TypeError m enc \<Rightarrow> if enc = BinType then ReadBytesZC b' else ([], b', Some err)
          | _ \<Rightarrow> ([], b', Some err)))"

subsection \<open>Integers\<close>

definition MaxInt64 :: "64 word" where "MaxInt64 = 0x7fffffffffffffff"

definition ReadInt64Bytes :: "byte list \<Rightarrow> 64 word \<times> byte list \<times> error option" where
  "ReadInt64Bytes b =
    (let l = length b in
     if l < 1 then (0, [], Some ErrShortBytes)
     else
       let lead = b ! 0 in
       if isfixint lead then (ucast (rfixint lead), drop 1 b, None)
       else if isnfixint lead then (scast (rnfixint lead), drop 1 b, None)
       else if lead = mint8 \<or> lead = muint8 then
         (if l < 2 then (0, b, Some ErrShortBytes)
          else if lead = mint8 then (scast (getMint8 b), drop 2 b, None)
          else (ucast (getMuint8 b), drop 2 b, None))
       else if lead = mint16 \<or> lead = muint16 then
         (if l < 3 then (0, b, Some ErrShortBytes)
          else if lead = mint16 then (scast (getMint16 b), drop 3 b, None)
          else (ucast (getMuint16 b), drop 3 b, None))
       else if lead = mint32 \<or> lead = muint32 then
         (if l < 5 then (0, b, Some ErrShortBytes)
          else if lead = mint32 then (scast (getMint32 b), drop 5 b, None)
          else (scast (getMint32 b), drop 5 b, None))
       else if lead = mint64 \<or> lead = muint64 then
         (if l < 9 then (0, b, Some ErrShortBytes)
          else if lead = mint64 then (getMint64 b, drop 9 b, None)
          else
            let num = getMuint64 b in
            if num > MaxInt64 then (0, b, Some (UintOverflow num 64))
            else (num, drop 9 b, None))
       else (0, b, Some (badPrefix IntType lead)))"

definition ReadInt8Bytes :: "byte list \<Rightarrow> 8 word \<times> byte list \<times> error option" where
  "ReadInt8Bytes b =
    (case ReadInt64Bytes b of
       (i, o', err) \<Rightarrow>
         if sint i > 127 \<or> sint i < - 128 then (0, o', Some (IntOverflow i 8))
         else (ucast i, o', err))"

subsection \<open>Skipping an object\<close>

text \<open>
  \<open>getSize\<close> returns the number of bytes to skip and the number of further objects to
  skip. Both are \<open>uintptr\<close> in the source; on a 64-bit platform no sum or product below
  can wrap (the largest is \<open>2 * (2^32 - 1)\<close>), so they are natural numbers here.
\<close>

definition getSize :: "byte list \<Rightarrow> nat \<times> nat \<times> error option" where
  "getSize b =
    (let l = length b in
     if l = 0 then (0, 0, Some ErrShortBytes)
     else
       let lead = b ! 0; spec = sizes lead; sz = size spec; mode = extra spec in
       if sz = 0 then (0, 0, Some (InvalidPrefixError lead))
       else if mode \<ge> 0 then (sz, nat mode, None)
       else if l < sz then (0, 0, Some ErrShortBytes)
       else if mode = extra8 then (sz + unat (b ! 1), 0, None)
       else if mode = extra16 then (sz + unat (big_Uint16 (drop 1 b)), 0, None)
       else if mode = extra32 then (sz + unat (big_Uint32 (drop 1 b)), 0, None)
       else if mode = map16v then (sz, 2 * unat (big_Uint16 (drop 1 b)), None)
       else if mode = map32v then (sz, 2 * unat (big_Uint32 (drop 1 b)), None)
       else if mode = array16v then (sz, unat (big_Uint16 (drop 1 b)), None)
       else if mode = array32v then (sz, unat (big_Uint32 (drop 1 b)), None)
       else (0, 0, Some fatal))"

function Skip :: "byte list \<Rightarrow> byte list \<times> error option"
  and Skip_loop :: "nat \<Rightarrow> byte list \<Rightarrow> byte list \<times> error option" where
  "Skip b =
    (case getSize b of
       (sz, asz, Some err) \<Rightarrow> (b, Some err)
     | (sz, asz, None) \<Rightarrow>
         if length b < sz then (b, Some ErrShortBytes)
         else Skip_loop asz (drop sz b))"
| "Skip_loop asz b =
    (if asz > 0 then
       (case Skip b of
          (b', Some err) \<Rightarrow> (b', Some err)
        | (b', None) \<Rightarrow> Skip_loop (asz - 1) b')
     else (b, None))"
  by pat_completeness auto

text \<open>
  \<open>Skip\<close> calls itself on the bytes an inner \<open>Skip\<close> returned, so its termination
  rests on a fact about its own result: a call never returns more bytes than it was given.
\<close>

lemma getSize_pos: "getSize b = (sz, asz, None) \<Longrightarrow> 0 < sz"
  by (auto simp: getSize_def Let_def split: if_splits)

lemma Skip_shorter:
  "Skip_Skip_loop_dom (Inl b) \<Longrightarrow> length (fst (Skip b)) \<le> length b"
  "Skip_Skip_loop_dom (Inr (asz, b)) \<Longrightarrow> length (fst (Skip_loop asz b)) \<le> length b"
proof (induct b and asz b rule: Skip_Skip_loop.pinduct)
  case (1 b)
  obtain sz asz e where g: "getSize b = (sz, asz, e)" by (cases "getSize b") auto
  show ?case
  proof (cases e)
    case (Some err)
    with g 1(1) show ?thesis by (simp add: Skip.psimps)
  next
    case None
    show ?thesis
    proof (cases "length b < sz")
      case True
      with g None 1(1) show ?thesis by (simp add: Skip.psimps)
    next
      case False
      from 1(2) [OF g [symmetric] refl None False]
      have "length (fst (Skip_loop asz (drop sz b))) \<le> length (drop sz b)" .
      with g None False 1(1) show ?thesis by (simp add: Skip.psimps)
    qed
  qed
next
  case (2 asz b)
  show ?case
  proof (cases "asz > 0")
    case False
    with 2(1) show ?thesis by (simp add: Skip_loop.psimps)
  next
    case True
    obtain b' e where s: "Skip b = (b', e)" by (cases "Skip b") auto
    from 2(2) [OF True] s have le: "length b' \<le> length b" by simp
    show ?thesis
    proof (cases e)
      case (Some err)
      with s True le 2(1) show ?thesis by (simp add: Skip_loop.psimps)
    next
      case None
      from 2(3) [OF True s [symmetric] None]
      have "length (fst (Skip_loop (asz - 1) b')) \<le> length b'" .
      with s None True le 2(1) show ?thesis by (simp add: Skip_loop.psimps)
    qed
  qed
qed

termination Skip
proof (relation "inv_image (less_than <*lex*> less_than)
    (\<lambda>x. case x of Inl b \<Rightarrow> (length b, 0) | Inr (asz, b) \<Rightarrow> (length b, Suc asz))", goal_cases)
  case 1 show ?case by (intro wf_inv_image wf_lex_prod wf_less_than)
next
  case 2
  then show ?case by (auto dest!: getSize_pos [OF sym])
next
  case 3
  then show ?case by simp
next
  case 4
  then show ?case by (auto dest!: Skip_shorter(1)) (metis fst_conv le_neq_implies_less)
qed

subsection \<open>One object on the wire\<close>

text \<open>
  Modelled from the spec: the wire grammar of the format, which the spec gives by its
  prefix bytes and length fields and by reference to the public MessagePack
  specification. It is written down without the prefix table and without \<open>getSize\<close>,
  as the set of byte strings that are exactly one object. \<open>fixed_forms\<close> lists the
  prefixes followed by a fixed number of bytes (for a fixext the tag and the payload);
  a string or binary carries its length in the prefix or in the next 1, 2 or 4 bytes,
  big-endian; an extension has a length field, one tag byte and the payload; an array
  of \<open>n\<close> elements is followed by \<open>n\<close> objects and a map of \<open>n\<close> pairs by
  \<open>2 * n\<close> objects. \<open>objects k xs\<close> says that \<open>xs\<close> is \<open>k\<close> objects one after the
  other.
\<close>

definition fixed_forms :: "(byte \<times> nat) list" where
  "fixed_forms =
    [(mnil, 0), (mfalse, 0), (mtrue, 0), (mfloat32, 4), (mfloat64, 8),
     (muint8, 1), (muint16, 2), (muint32, 4), (muint64, 8),
     (mint8, 1), (mint16, 2), (mint32, 4), (mint64, 8),
     (mfixext1, 2), (mfixext2, 3), (mfixext4, 5), (mfixext8, 9), (mfixext16, 17)]"

inductive object :: "byte list \<Rightarrow> bool"
  and objects :: "nat \<Rightarrow> byte list \<Rightarrow> bool" where
  pfixint: "n < 128 \<Longrightarrow> object [of_nat n]"
| nfixint: "n < 32 \<Longrightarrow> object [0xe0 + of_nat n]"
| fixed: "(p, n) \<in> set fixed_forms \<Longrightarrow> length pl = n \<Longrightarrow> object (p # pl)"
| fixstr: "n < 32 \<Longrightarrow> length pl = n \<Longrightarrow> object ((0xa0 + of_nat n) # pl)"
| len8: "p = mstr8 \<or> p = mbin8 \<Longrightarrow> length pl = unat n \<Longrightarrow> object (p # n # pl)"
| len16: "p = mstr16 \<or> p = mbin16 \<Longrightarrow> length pl = unat (be_word [h, l] :: 16 word)
    \<Longrightarrow> object (p # h # l # pl)"
| len32: "p = mstr32 \<or> p = mbin32 \<Longrightarrow> length pl = unat (be_word [a, b, c, d] :: 32 word)
    \<Longrightarrow> object (p # a # b # c # d # pl)"
| ext8: "length pl = unat n \<Longrightarrow> object (mext8 # n # t # pl)"
| ext16: "length pl = unat (be_word [h, l] :: 16 word) \<Longrightarrow> object (mext16 # h # l # t # pl)"
| ext32: "length pl = unat (be_word [a, b, c, d] :: 32 word)
    \<Longrightarrow> object (mext32 # a # b # c # d # t # pl)"
| fixarray: "n < 16 \<Longrightarrow> objects n pl \<Longrightarrow> object ((0x90 + of_nat n) # pl)"
| array16: "objects (unat (be_word [h, l] :: 16 word)) pl \<Longrightarrow> object (marray16 # h # l # pl)"
| array32: "objects (unat (be_word [a, b, c, d] :: 32 word)) pl
    \<Longrightarrow> object (marray32 # a # b # c # d # pl)"
| fixmap: "n < 16 \<Longrightarrow> objects (2 * n) pl \<Longrightarrow> object ((0x80 + of_nat n) # pl)"
| map16: "objects (2 * unat (be_word [h, l] :: 16 word)) pl \<Longrightarrow> object (mmap16 # h # l # pl)"
| map32: "objects (2 * unat (be_word [a, b, c, d] :: 32 word)) pl
    \<Longrightarrow> object (mmap32 # a # b # c # d # pl)"
| none: "objects 0 []"
| more: "object x \<Longrightarrow> objects n xs \<Longrightarrow> objects (Suc n) (x @ xs)"

section \<open>The Raw passthrough object\<close>

text \<open>
  Modelled from the spec: \<open>AppendNil\<close> of the codec's writer, which is not among the
  sources. Section 4.2: marshaling a zero-length \<open>Raw\<close> emits nil (\<open>0xc0\<close>).
\<close>

definition AppendNil :: "byte list \<Rightarrow> byte list" where
  "AppendNil b = b @ [mnil]"

text \<open>
  Go's built-in \<open>copy(dst, src)\<close>: it overwrites the first \<open>min (len dst) (len src)\<close>
  elements of \<open>dst\<close> and returns that number. The model returns the new contents of
  \<open>dst\<close> as well.
\<close>

definition copy :: "'a list \<Rightarrow> 'a list \<Rightarrow> 'a list \<times> nat" where
  "copy dst src =
    (let n = min (length dst) (length src) in (take n src @ drop n dst, n))"

text \<open>
  \<open>Raw.MarshalMsg\<close>. The helper \<open>ensure\<close> belongs to the codec's writer, which is not
  among the sources, so it is a parameter \<open>ens\<close> of the model: \<open>ens b sz\<close> is the pair
  of the slice returned and the index returned. The statement \<open>copy(o[l:], r)\<close> writes
  through to \<open>o\<close>, which the model spells out. The slice expression is in range for
  every \<open>ensure\<close> that meets the contract below.
\<close>

definition MarshalMsg ::
  "(byte list \<Rightarrow> nat \<Rightarrow> byte list \<times> nat) \<Rightarrow> byte list \<Rightarrow> byte list
    \<Rightarrow> byte list \<times> error option" where
  "MarshalMsg ens r b =
    (let i = length r in
     if i = 0 then (AppendNil b, None)
     else
       let (o', l) = ens b i in
       (take l o' @ fst (copy (drop l o') r), None))"

definition Msgsize :: "byte list \<Rightarrow> nat" where
  "Msgsize r = (let l = length r in if l = 0 then 1 else l)"

text \<open>
  What the callers of \<open>ensure\<close> rely on: the slice returned holds the bytes of \<open>b\<close>
  followed by \<open>sz\<close> more, and the index returned is the length of \<open>b\<close>.
\<close>

definition ensure_contract :: "(byte list \<Rightarrow> nat \<Rightarrow> byte list \<times> nat) \<Rightarrow> bool" where
  "ensure_contract ens =
    (\<forall>b sz. case ens b sz of (o', l) \<Rightarrow> l = length b \<and> length o' = l + sz \<and> take l o' = b)"

text \<open>
  One function that meets the contract: a slice without spare capacity grows into a
  fresh, zeroed array.
\<close>

definition ensure :: "byte list \<Rightarrow> nat \<Rightarrow> byte list \<times> nat" where
  "ensure b sz = (b @ replicate sz 0, length b)"

section \<open>The JSON transcoder\<close>

text \<open>
  In the functions that transcode one value (\<open>rwQuoted\<close>, \<open>rwExtension\<close>,
  \<open>rwFloat32\<close>, \<open>rwFloat64\<close>) the writer \<open>dst\<close> is modelled by the bytes written to
  it so far, and the model covers the runs in which every write to \<open>dst\<close> succeeds, as
  it does into a byte buffer or into a buffered writer with room left. Such a function
  returns the byte count \<open>n\<close> it reports, the writer and the error. In the loop of
  \<open>WriteToJSON\<close> nothing is assumed of the writer: \<open>rwNext\<close> and the flush of the
  buffered writer into \<open>w\<close> are parameters, and each may return an error.
\<close>

definition bytes_of :: "string \<Rightarrow> byte list" where
  "bytes_of str = map of_char str"

definition bs :: char where "bs = CHR 0x5C"
definition dq :: char where "dq = CHR 0x22"
definition nl :: char where "nl = CHR 0x0A"

subsection \<open>Library functions the transcoder calls\<close>

text \<open>
  Decimal digits of a natural number, and \<open>strconv.Itoa\<close> / \<open>strconv.AppendInt\<close> in
  base 10 on top of them.
\<close>

function digits :: "nat \<Rightarrow> string" where
  "digits n =
    (if n < 10 then [''0123456789'' ! n]
     else digits (n div 10) @ [''0123456789'' ! (n mod 10)])"
  by pat_completeness auto
termination
  by (relation "measure id") auto

definition Itoa :: "int \<Rightarrow> string" where
  "Itoa i = (if i < 0 then CHR ''-'' # digits (nat (- i)) else digits (nat i))"

definition AppendInt :: "byte list \<Rightarrow> int \<Rightarrow> byte list" where
  "AppendInt dst i = dst @ bytes_of (Itoa i)"

text \<open>
  \<open>base64.StdEncoding\<close>: three bytes become four characters of the standard alphabet,
  and a last group of one or two bytes is padded with \<open>=\<close>. The source writes the
  payload through a streaming encoder and closes it, which emits the encoding of the
  whole payload.
\<close>

definition encodeStd :: string where
  "encodeStd = ''ABCDEFGHIJKLMNOPQRSTUVWXYZabcdefghijklmnopqrstuvwxyz0123456789+/''"

definition b64 :: "byte \<Rightarrow> byte" where
  "b64 x = of_char (encodeStd ! unat x)"

fun base64_StdEncoding :: "byte list \<Rightarrow> byte list" where
  "base64_StdEncoding (a # b # c # rest) =
     b64 (drop_bit 2 a)
     # b64 (push_bit 4 (a AND 3) OR drop_bit 4 b)
     # b64 (push_bit 2 (b AND 0xf) OR drop_bit 6 c)
     # b64 (c AND 0x3f)
     # base64_StdEncoding rest"
| "base64_StdEncoding [a, b] =
     [b64 (drop_bit 2 a), b64 (push_bit 4 (a AND 3) OR drop_bit 4 b),
      b64 (push_bit 2 (b AND 0xf)), of_char (CHR ''='')]"
| "base64_StdEncoding [a] =
     [b64 (drop_bit 2 a), b64 (push_bit 4 (a AND 3)), of_char (CHR ''=''), of_char (CHR ''='')]"
| "base64_StdEncoding [] = []"

text \<open>
  \<open>utf8.DecodeRune\<close> of Go's library, with its table of first bytes and its accept
  ranges: the rune and the number of bytes it takes. A byte that starts no valid
  sequence decodes to \<open>RuneError\<close> with size 1.
\<close>

definition RuneError :: "32 word" where "RuneError = 0xFFFD"

definition first :: "byte \<Rightarrow> byte" where
  "first p0 =
    (if p0 < 0x80 then 0xF0
     else if p0 < 0xC2 then 0xF1
     else if p0 < 0xE0 then 0x02
     else if p0 = 0xE0 then 0x13
     else if p0 < 0xED then 0x03
     else if p0 = 0xED then 0x23
     else if p0 < 0xF0 then 0x03
     else if p0 = 0xF0 then 0x34
     else if p0 < 0xF4 then 0x04
     else if p0 = 0xF4 then 0x44
     else 0xF1)"

definition acceptRanges :: "byte \<Rightarrow> byte \<times> byte" where
  "acceptRanges k =
    (if k = 0 then (0x80, 0xBF)
     else if k = 1 then (0xA0, 0xBF)
     else if k = 2 then (0x80, 0x9F)
     else if k = 3 then (0x90, 0xBF)
     else if k = 4 then (0x80, 0x8F)
     else (0, 0))"

definition DecodeRune :: "byte list \<Rightarrow> 32 word \<times> nat" where
  "DecodeRune p =
    (let n = length p in
     if n < 1 then (RuneError, 0)
     else
       let p0 = p ! 0; x = first p0 in
       if x \<ge> 0xF0 then
         (let mask = signed_drop_bit 31 (push_bit 31 (ucast x :: 32 word))
          in ((ucast p0 AND NOT mask) OR (RuneError AND mask), 1))
       else
         let sz = unat (x AND 7); (lo, hi) = acceptRanges (drop_bit 4 x) in
         if n < sz then (RuneError, 1)
         else
           let b1 = p ! 1 in
           if b1 < lo \<or> hi < b1 then (RuneError, 1)
           else if sz \<le> 2 then
             (push_bit 6 (ucast (p0 AND 0x1F)) OR ucast (b1 AND 0x3F), 2)
           else
             let b2 = p ! 2 in
             if b2 < 0x80 \<or> 0xBF < b2 then (RuneError, 1)
             else if sz \<le> 3 then
               (push_bit 12 (ucast (p0 AND 0x0F)) OR push_bit 6 (ucast (b1 AND 0x3F))
                  OR ucast (b2 AND 0x3F), 3)
             else
               let b3 = p ! 3 in
               if b3 < 0x80 \<or> 0xBF < b3 then (RuneError, 1)
               else
                 (push_bit 18 (ucast (p0 AND 0x07)) OR push_bit 12 (ucast (b1 AND 0x3F))
                    OR push_bit 6 (ucast (b2 AND 0x3F)) OR ucast (b3 AND 0x3F), 4))"

lemma DecodeRune_size: "p \<noteq> [] \<Longrightarrow> 0 < snd (DecodeRune p)"
  by (cases p) (auto simp: DecodeRune_def Let_def split: prod.splits)

lemma DecodeRune_advances:
  assumes "i < length s" and "(c, sz) = DecodeRune (drop i s)"
  shows "length s - (i + sz) < length s - i"
proof -
  have "drop i s \<noteq> []" using assms(1) by simp
  from DecodeRune_size [OF this] assms(2) [symmetric] have "0 < sz" by simp
  with assms(1) show ?thesis by arith
qed

subsection \<open>Quoting a string\<close>

definition hex :: string where "hex = ''0123456789abcdef''"

definition hexb :: "nat \<Rightarrow> byte" where "hexb k = of_char (hex ! k)"

definition subslice :: "'a list \<Rightarrow> nat \<Rightarrow> nat \<Rightarrow> 'a list" where
  "subslice s i j = take (j - i) (drop i s)"

text \<open>
  The loop of \<open>rwQuoted\<close> over the index \<open>i\<close>, with \<open>start\<close> the index from which the
  input has not been written yet. It returns the writer, the count and the final
  \<open>start\<close>. The bytes compared against are \<open>'\\'\<close> (0x5C), \<open>'"'\<close> (0x22), \<open>'<'\<close>
  (0x3C), \<open>'>'\<close> (0x3E), \<open>'&'\<close> (0x26), \<open>'\n'\<close> (0x0A) and \<open>'\r'\<close> (0x0D).
\<close>

function rwQuoted_loop ::
  "byte list \<Rightarrow> nat \<Rightarrow> nat \<Rightarrow> byte list \<Rightarrow> nat \<Rightarrow> byte list \<times> nat \<times> nat" where
  "rwQuoted_loop s start i dst n =
    (if i < length s then
       let b = s ! i in
       if b < 0x80 then
         (if 0x20 \<le> b \<and> b \<noteq> 0x5C \<and> b \<noteq> 0x22 \<and> b \<noteq> 0x3C \<and> b \<noteq> 0x3E \<and> b \<noteq> 0x26
          then rwQuoted_loop s start (i + 1) dst n
          else
            let (dst1, n1) =
                  (if start < i then (dst @ subslice s start i, n + (i - start)) else (dst, n));
                (dst2, n2) =
                  (if b = 0x5C \<or> b = 0x22 then (dst1 @ [of_char bs, b], n1 + 2)
                   else if b = 0x0A then (dst1 @ bytes_of [bs, CHR ''n''], n1 + 2)
                   else if b = 0x0D then (dst1 @ bytes_of [bs, CHR ''r''], n1 + 2)
                   else (dst1 @ bytes_of (bs # ''u00'')
                           @ [hexb (unat (drop_bit 4 b)), hexb (unat (b AND 0xF))], n1 + 6))
            in rwQuoted_loop s (i + 1) (i + 1) dst2 n2)
       else
         let (c, sz) = DecodeRune (drop i s) in
         if c = RuneError \<and> sz = 1 \<and> start < i then
           rwQuoted_loop s (i + sz) (i + sz)
             (dst @ subslice s start i @ bytes_of (bs # ''ufffd'')) (n + (i - start) + 6)
         else
           let (dst1, n1) =
                 (if (c = 0x2028 \<or> c = 0x2029) \<and> start < i then
                    (dst @ subslice s start i @ bytes_of (bs # ''u202'')
                       @ [hexb (unat (c AND 0xF))],
                     n + (i - start) + 5 + 1)
                  else (dst, n))
           in rwQuoted_loop s start (i + sz) dst1 n1
     else (dst, n, start))"
  by pat_completeness auto
termination
  by (relation "measure (\<lambda>(s, start, i, dst, n). length s - i)")
    (auto intro: DecodeRune_advances)

definition rwQuoted :: "byte list \<Rightarrow> byte list \<Rightarrow> nat \<times> byte list \<times> error option" where
  "rwQuoted dst s =
    (let (dst1, n1, start) = rwQuoted_loop s 0 0 (dst @ [of_char dq]) 1;
         (dst2, n2) =
           (if start < length s then (dst1 @ drop start s, n1 + (length s - start))
            else (dst1, n1))
     in (n2 + 1, dst2 @ [of_char dq], None))"

subsection \<open>Extensions\<close>

text \<open>
  \<open>rwExtension\<close>. The reader and the registry belong to files that are not among the
  sources, so the model takes what they return: \<open>peekExtensionType\<close> is the result of
  peeking the type tag (an int8, kept as its byte), \<open>ReadExtension\<close> the payload read or
  the error, and \<open>extensionReg\<close> maps a registered tag to the JSON its extension marshals
  to from the payload (or to the error of reading or marshaling). The count adds the
  number of payload bytes for the base64 part, as the encoder's \<open>Write\<close> reports it.
\<close>

definition rwExtension ::
  "(8 word \<Rightarrow> (byte list \<Rightarrow> error + byte list) option) \<Rightarrow> error + 8 word
    \<Rightarrow> error + byte list \<Rightarrow> byte list \<Rightarrow> nat \<times> byte list \<times> error option" where
  "rwExtension extensionReg peekExtensionType ReadExtension dst =
    (case peekExtensionType of
       Inl err \<Rightarrow> (0, dst, Some err)
     | Inr et \<Rightarrow>
         (case extensionReg et of
            Some j \<Rightarrow>
              (case ReadExtension of
                 Inl err \<Rightarrow> (0, dst, Some err)
               | Inr payload \<Rightarrow>
                   (case j payload of
                      Inl err \<Rightarrow> (0, dst, Some err)
                    | Inr bts \<Rightarrow> (length bts, dst @ bts, None)))
          | None \<Rightarrow>
              (case ReadExtension of
                 Inl err \<Rightarrow> (0, dst, Some err)
               | Inr data \<Rightarrow>
                   let dst1 = dst @ bytes_of ''{''; n1 = 1;
                       lit1 = bytes_of (dq # ''type:'' @ [dq]);
                       dst2 = dst1 @ lit1; n2 = n1 + length lit1;
                       scratch = AppendInt [] (sint et);
                       dst3 = dst2 @ scratch; n3 = n2 + length scratch;
                       lit2 = bytes_of ('','' @ dq # ''data'' @ [dq] @ '':'' @ [dq]);
                       dst4 = dst3 @ lit2; n4 = n3 + length lit2;
                       dst5 = dst4 @ base64_StdEncoding data; n5 = n4 + length data;
                       lit3 = bytes_of (dq # ''}'');
                       dst6 = dst5 @ lit3; n6 = n5 + length lit3
                   in (n6, dst6, None))))"

text \<open>The registry with no extension registered.\<close>

definition extensionReg_empty :: "8 word \<Rightarrow> (byte list \<Rightarrow> error + byte list) option" where
  "extensionReg_empty t = None"

subsection \<open>Floating-point numbers\<close>

text \<open>
  A float64 is the 64-bit word of its IEEE 754 encoding, a float32 the 32-bit word.
  \<open>float32_of\<close> is Go's conversion \<open>float32(f)\<close>: the nearest float32, ties to even,
  overflow to infinity; \<open>bitlen\<close> is the number of bits of a significand and
  \<open>round_even\<close> drops \<open>sh\<close> low bits with that rounding.
\<close>

fun bitlen :: "nat \<Rightarrow> nat" where
  "bitlen n = (if n = 0 then 0 else Suc (bitlen (n div 2)))"

declare bitlen.simps [simp del]

definition round_even :: "nat \<Rightarrow> nat \<Rightarrow> nat" where
  "round_even sig sh =
    (let r = sig div 2 ^ sh; rem = sig mod 2 ^ sh; half = 2 ^ sh div 2 in
     if rem > half \<or> (rem = half \<and> sh > 0 \<and> odd r) then r + 1 else r)"

definition float32_of :: "64 word \<Rightarrow> 32 word" where
  "float32_of w =
    (let sgn = push_bit 31 (ucast (drop_bit 63 w)) :: 32 word;
         e = unat (drop_bit 52 w AND 0x7ff);
         m = unat (w AND 0xfffffffffffff)
     in if e = 0x7ff then
          (if m = 0 then sgn OR 0x7f800000 else sgn OR 0x7fc00000 OR of_nat (m div 2 ^ 29))
        else
          let sig = (if e = 0 then m else m + 2 ^ 52);
              ex = int (max e 1) - 1075;
              q = max (ex + int (bitlen sig) - 24) (- 149);
              r = round_even sig (nat (q - ex));
              bits = nat (q + 149) * 2 ^ 23 + r
          in if sig = 0 then sgn
             else if bits \<ge> 0x7f800000 then sgn OR 0x7f800000
             else sgn OR of_nat bits)"

text \<open>
  \<open>float64_of\<close> is the conversion \<open>float64(f)\<close> of a float32, which is exact: the
  exponent is rebiased, a subnormal is normalised, and a NaN stays a quiet NaN.
\<close>

definition float64_of :: "32 word \<Rightarrow> 64 word" where
  "float64_of w =
    (let sgn = push_bit 63 (ucast (drop_bit 31 w)) :: 64 word;
         e = unat (drop_bit 23 w AND 0xff);
         m = unat (w AND 0x7fffff)
     in if e = 0xff then
          (if m = 0 then sgn OR 0x7ff0000000000000
           else sgn OR 0x7ff8000000000000 OR push_bit 29 (of_nat m))
        else if e = 0 then
          (if m = 0 then sgn
           else sgn OR push_bit 52 (of_nat (873 + bitlen m))
                  OR of_nat (m * 2 ^ (53 - bitlen m) - 2 ^ 52))
        else sgn OR push_bit 52 (of_nat (e + 896)) OR push_bit 29 (of_nat m))"

text \<open>
  \<open>strconv.AppendFloat(dst, f, fmt, prec, bitSize)\<close>. Go's library first reduces the
  value to the bits it formats: with \<open>bitSize = 32\<close> the bits of \<open>float32(f)\<close>, with
  \<open>bitSize = 64\<close> the bits of \<open>f\<close>, and it panics on any other bit size (\<open>None\<close>);
  the digits depend on those bits only. The digit generation itself is a parameter
  \<open>ftoa\<close> of the model, given the format, the precision, the bit size and the bits.
\<close>

definition AppendFloat ::
  "(char \<Rightarrow> int \<Rightarrow> nat \<Rightarrow> 64 word \<Rightarrow> string) \<Rightarrow> byte list \<Rightarrow> 64 word \<Rightarrow> char \<Rightarrow> int \<Rightarrow> nat
    \<Rightarrow> byte list option" where
  "AppendFloat ftoa dst f fmt prec bitSize =
    (if bitSize = 32 then Some (dst @ bytes_of (ftoa fmt prec 32 (ucast (float32_of f))))
     else if bitSize = 64 then Some (dst @ bytes_of (ftoa fmt prec 64 f))
     else None)"

text \<open>
  \<open>rwFloat32\<close> and \<open>rwFloat64\<close>; \<open>ReadFloat32\<close> and \<open>ReadFloat64\<close> are what the
  reader returned. The result is \<open>None\<close> when the call panics.
\<close>

definition rwFloat32 ::
  "(char \<Rightarrow> int \<Rightarrow> nat \<Rightarrow> 64 word \<Rightarrow> string) \<Rightarrow> error + 32 word \<Rightarrow> byte list
    \<Rightarrow> (nat \<times> byte list \<times> error option) option" where
  "rwFloat32 ftoa ReadFloat32 dst =
    (case ReadFloat32 of
       Inl err \<Rightarrow> Some (0, dst, Some err)
     | Inr f \<Rightarrow>
         (case AppendFloat ftoa [] (float64_of f) (CHR ''f'') (- 1) 64 of
            None \<Rightarrow> None
          | Some scratch \<Rightarrow> Some (length scratch, dst @ scratch, None)))"

definition rwFloat64 ::
  "(char \<Rightarrow> int \<Rightarrow> nat \<Rightarrow> 64 word \<Rightarrow> string) \<Rightarrow> error + 64 word \<Rightarrow> byte list
    \<Rightarrow> (nat \<times> byte list \<times> error option) option" where
  "rwFloat64 ftoa ReadFloat64 dst =
    (case ReadFloat64 of
       Inl err \<Rightarrow> Some (0, dst, Some err)
     | Inr f \<Rightarrow>
         (case AppendFloat ftoa [] f (CHR ''f'') (- 1) 32 of
            None \<Rightarrow> None
          | Some scratch \<Rightarrow> Some (length scratch, dst @ scratch, None)))"

subsection \<open>The transcoding loop\<close>

text \<open>
  \<open>WriteToJSON\<close> calls \<open>rwNext\<close> until it returns an error. The reader and the writer
  together are a state \<open>'r\<close>, and \<open>rwNext\<close> is a parameter: one call returns the bytes
  written, the error and the next state. The loop need not end, so it is a partial
  function and not returning is \<open>None\<close>. \<open>buffered\<close> says that \<open>w\<close> was wrapped in a
  buffered writer (\<open>bf \<noteq> nil\<close>), and \<open>Flush\<close> is what flushing it into \<open>w\<close> returns:
  nil, or the error of the \<open>Write\<close> of \<open>w\<close>.
\<close>

partial_function (option) rwNext_loop ::
  "('r \<Rightarrow> nat \<times> error option \<times> 'r) \<Rightarrow> 'r \<Rightarrow> nat \<Rightarrow> (nat \<times> error \<times> 'r) option" where
  "rwNext_loop rwNext r n =
    (case rwNext r of
       (nn, None, r') \<Rightarrow> rwNext_loop rwNext r' (n + nn)
     | (nn, Some err, r') \<Rightarrow> Some (n + nn, err, r'))"

definition WriteToJSON ::
  "('r \<Rightarrow> nat \<times> error option \<times> 'r) \<Rightarrow> bool \<Rightarrow> ('r \<Rightarrow> error option) \<Rightarrow> 'r
    \<Rightarrow> (nat \<times> error option) option" where
  "WriteToJSON rwNext buffered Flush r =
    (case rwNext_loop rwNext r 0 of
       None \<Rightarrow> None
     | Some (n, err, r') \<Rightarrow>
         if err \<noteq> EOF then Some (n, Some err)
         else if buffered then Some (n, Flush r')
         else Some (n, None))"

text \<open>
  The first \<open>k\<close> calls of the loop: \<open>Some\<close> when one of them returned an error, with the
  count, that error and the state it left.
\<close>

fun calls ::
  "('r \<Rightarrow> nat \<times> error option \<times> 'r) \<Rightarrow> nat \<Rightarrow> 'r \<Rightarrow> nat \<Rightarrow> (nat \<times> error \<times> 'r) option" where
  "calls rwNext 0 r n = None"
| "calls rwNext (Suc k) r n =
    (case rwNext r of
       (nn, None, r') \<Rightarrow> calls rwNext k r' (n + nn)
     | (nn, Some err, r') \<Rightarrow> Some (n + nn, err, r'))"

text \<open>
  A stream for examples: the state is the list of the sizes of the objects still to
  come, each call transcodes one, and the empty list is the end of the stream.
  \<open>Flush_fails\<close> is the flush into a writer \<open>w\<close> whose \<open>Write\<close> returns an error,
  \<open>Flush_ok\<close> the flush into one that takes the bytes, and \<open>broken\<close> is a stream cut
  inside its second object.
\<close>

fun drain :: "nat list \<Rightarrow> nat \<times> error option \<times> nat list" where
  "drain [] = (0, Some EOF, [])"
| "drain (k # ks) = (k, None, ks)"

definition Flush_fails :: "nat list \<Rightarrow> error option" where
  "Flush_fails r = Some (ErrIO 1)"

definition Flush_ok :: "nat list \<Rightarrow> error option" where
  "Flush_ok r = None"

fun broken :: "nat list \<Rightarrow> nat \<times> error option \<times> nat list" where
  "broken [] = (0, Some ErrShortBytes, [])"
| "broken (k # ks) = (k, None, ks)"

section \<open>The size-expression generator\<close>

subsection \<open>Element trees\<close>

text \<open>
  The three states of the emitter, in the order of the source's constants. The type is
  a \<open>uint8\<close> there; only these three values are ever assigned, so the \<open>panic\<close> after
  the \<open>switch\<close> of \<open>addConstant\<close> cannot be reached.
\<close>

datatype sizeState = assign | add | expr

text \<open>
  Modelled from the spec: the element tree of the generator, whose declarations are
  not among the sources. Section 3 lists the nodes (\<open>Struct\<close> with its tagged fields
  and \<open>asTuple\<close>; \<open>Ptr\<close>; \<open>Slice\<close>; \<open>Array\<close> with its size expression; \<open>Map\<close> with
  its key and value identifiers; \<open>BaseElem\<close>) and the primitives. What the source
  obtains from a method of an element is a field here: \<open>Varname\<close>, \<open>BaseName\<close>,
  \<open>BaseType\<close> and \<open>toBaseConvert\<close>. The field \<open>Convert\<close> of a base element is
  \<open>Convert'\<close>, since the shim mode of that name is a constructor; the primitive
  \<open>Ident\<close> is written \<open>IDENT\<close> as in the source, and \<open>Nil\<close> is \<open>Nil'\<close>.
\<close>

datatype Primitive =
    Intf | Ext | IDENT | Bytes | String | Bool
  | Int8 | Int16 | Int32 | Int64 | Uint8 | Uint16 | Uint32 | Uint64
  | Float32 | Float64 | Nil' | Time | Complex64 | Complex128

datatype ShimMode = Cast | Convert

record BaseElem =
  Value :: Primitive
  Varname :: string
  Convert' :: bool
  ShimMode :: ShimMode
  BaseName :: string
  BaseType :: string
  toBaseConvert :: string

text \<open>
  \<open>Ptr varname value\<close>, \<open>Slice varname index els\<close>, \<open>Array varname index size els\<close>,
  \<open>Map varname keyIndx valIndx value\<close>, \<open>Struct fields asTuple\<close> and a field
  \<open>StructField fieldTag fieldElem\<close>.
\<close>

datatype Elem =
    Struct "StructField list" bool
  | Ptr string Elem
  | Slice string string Elem
  | Array string string string Elem
  | Map string string string Elem
  | Base BaseElem
and StructField = StructField string Elem

subsection \<open>The printer\<close>

text \<open>
  Modelled from the spec: the printer of the generator and the helpers around it, which
  are not among the sources. Section 6 names what the printer exposes (\<open>print\<close>,
  \<open>printf\<close>, \<open>declare\<close>, \<open>closeBlock\<close>, \<open>rangeBlock\<close>) and asks of \<open>randIdent\<close> a
  fresh identifier at each call. The text that \<open>declare\<close>, \<open>closeBlock\<close> and the opening
  of \<open>rangeBlock\<close> print, the names \<open>arrayHeader\<close> and \<open>mapHeader\<close>, and the sequence of
  identifiers are parameters, collected in \<open>printer_env\<close>.
\<close>

record printer_env =
  randIdent :: "nat \<Rightarrow> string"
  arrayHeader :: string
  mapHeader :: string
  declare_text :: "string \<Rightarrow> string \<Rightarrow> string"
  closeBlock_text :: string
  rangeBlock_text :: "string \<Rightarrow> string \<Rightarrow> string"

text \<open>
  The generator: the text written to the printer's writer, whether the printer holds an
  error, the emission state, and how many identifiers \<open>randIdent\<close> has handed out. A
  printer that holds an error prints nothing more.
\<close>

record sizeGen =
  p_w :: string
  p_err :: bool
  state :: sizeState
  idents :: nat

definition ok :: "sizeGen \<Rightarrow> bool" where "ok s = (\<not> p_err s)"

definition print :: "string \<Rightarrow> sizeGen \<Rightarrow> sizeGen" where
  "print txt s = (if p_err s then s else s\<lparr>p_w := p_w s @ txt\<rparr>)"

definition closeBlock :: "printer_env \<Rightarrow> sizeGen \<Rightarrow> sizeGen" where
  "closeBlock env s = print (closeBlock_text env) s"

definition declare' :: "printer_env \<Rightarrow> string \<Rightarrow> string \<Rightarrow> sizeGen \<Rightarrow> sizeGen" where
  "declare' env name ty s = print (declare_text env name ty) s"

text \<open>
  Modelled from the spec: the header and string writers of the codec, which are not
  among the sources; the generator only takes the length of what they append. Section
  4.1: fixmap \<open>0x80..0x8f\<close>, map16 and map32; fixarray \<open>0x90..0x9f\<close>, array16 and
  array32; fixstr \<open>0xa0..0xbf\<close>, str8, str16 and str32, each followed by a big-endian
  length of 1, 2 or 4 bytes, and the shortest form that fits is the one written.
\<close>

definition put16 :: "16 word \<Rightarrow> byte list" where
  "put16 w = [ucast (drop_bit 8 w), ucast w]"

definition put32 :: "32 word \<Rightarrow> byte list" where
  "put32 w = [ucast (drop_bit 24 w), ucast (drop_bit 16 w), ucast (drop_bit 8 w), ucast w]"

definition AppendMapHeader :: "byte list \<Rightarrow> 32 word \<Rightarrow> byte list" where
  "AppendMapHeader b sz =
    (if sz \<le> 15 then b @ [0x80 OR ucast sz]
     else if sz \<le> 0xffff then b @ mmap16 # put16 (ucast sz)
     else b @ mmap32 # put32 sz)"

definition AppendArrayHeader :: "byte list \<Rightarrow> 32 word \<Rightarrow> byte list" where
  "AppendArrayHeader b sz =
    (if sz \<le> 15 then b @ [0x90 OR ucast sz]
     else if sz \<le> 0xffff then b @ marray16 # put16 (ucast sz)
     else b @ marray32 # put32 sz)"

definition AppendString :: "byte list \<Rightarrow> string \<Rightarrow> byte list" where
  "AppendString b str =
    (let sz = length str in
     if sz \<le> 31 then b @ (0xa0 OR of_nat sz) # bytes_of str
     else if sz \<le> 0xff then b @ mstr8 # of_nat sz # bytes_of str
     else if sz \<le> 0xffff then b @ mstr16 # put16 (of_nat sz) @ bytes_of str
     else b @ mstr32 # put32 (of_nat sz) @ bytes_of str)"

subsection \<open>Emitting terms\<close>

definition builtinSize :: "string \<Rightarrow> string" where
  "builtinSize t = ''msgp.'' @ t @ ''Size''"

definition addConstant :: "string \<Rightarrow> sizeGen \<Rightarrow> sizeGen" where
  "addConstant sz s =
    (if \<not> ok s then s
     else case state s of
       assign \<Rightarrow> (print (nl # ''s = '' @ sz) s)\<lparr>state := expr\<rparr>
     | add \<Rightarrow> (print (nl # ''s += '' @ sz) s)\<lparr>state := expr\<rparr>
     | expr \<Rightarrow> print ('' + '' @ sz) s)"

definition lenExpr :: "string \<Rightarrow> string" where
  "lenExpr varname = ''len('' @ varname @ '')''"

definition fixedSize :: "Primitive \<Rightarrow> bool" where
  "fixedSize p = (p \<noteq> Intf \<and> p \<noteq> Ext \<and> p \<noteq> IDENT \<and> p \<noteq> Bytes \<and> p \<noteq> String)"

text \<open>\<open>stripRef\<close> reads \<open>s[0]\<close>: on the empty string the source panics, which is \<open>None\<close>.\<close>

definition stripRef :: "string \<Rightarrow> string option" where
  "stripRef s =
    (case s of
       [] \<Rightarrow> None
     | c # rest \<Rightarrow> if c = CHR ''&'' then Some rest else Some s)"

text \<open>
  The second loop of the \<open>Struct\<close> case of \<open>fixedSizeExpr\<close>: the length of the map
  header plus the lengths of the encoded field tags.
\<close>

definition hdrlen_of :: "StructField list \<Rightarrow> nat" where
  "hdrlen_of fs =
    length (AppendMapHeader [] (of_nat (length fs)))
    + sum_list (map (\<lambda>f. case f of StructField tag el \<Rightarrow> length (AppendString [] tag)) fs)"

text \<open>
  \<open>fixedSizeExpr\<close>, with \<open>fixedFields\<close> for the first loop of its \<open>Struct\<close> case: the
  loop runs through the fields with the string built so far and stops at the first
  field that is not of fixed size.
\<close>

fun fixedSizeExpr :: "Elem \<Rightarrow> string \<times> bool"
  and fixedFields :: "StructField list \<Rightarrow> string \<Rightarrow> string \<times> bool" where
  "fixedSizeExpr (Array vn idx sz els) =
    (case fixedSizeExpr els of
       (str, True) \<Rightarrow> (''('' @ sz @ '' * ('' @ str @ ''))'', True)
     | (str, False) \<Rightarrow> ([], False))"
| "fixedSizeExpr (Base b) =
    (if fixedSize (Value b) then (builtinSize (BaseName b), True) else ([], False))"
| "fixedSizeExpr (Struct fs tup) =
    (case fixedFields fs [] of
       (str, False) \<Rightarrow> ([], False)
     | (str, True) \<Rightarrow> (Itoa (int (hdrlen_of fs)) @ '' + '' @ str, True))"
| "fixedSizeExpr (Ptr vn v) = ([], False)"
| "fixedSizeExpr (Slice vn idx els) = ([], False)"
| "fixedSizeExpr (Map vn k v el) = ([], False)"
| "fixedFields [] str = (str, True)"
| "fixedFields (StructField tag el # fs) str =
    (case fixedSizeExpr el of
       (fstr, True) \<Rightarrow> fixedFields fs (if str = [] then fstr else str @ ''+'' @ fstr)
     | (fstr, False) \<Rightarrow> ([], False))"

definition baseSizeExpr :: "Primitive \<Rightarrow> string \<Rightarrow> string \<Rightarrow> string option" where
  "baseSizeExpr v vname basename =
    (case v of
       Ext \<Rightarrow> map_option (\<lambda>r. ''msgp.ExtensionPrefixSize + '' @ r @ ''.Len()'') (stripRef vname)
     | Intf \<Rightarrow> Some (''msgp.GuessSize('' @ vname @ '')'')
     | IDENT \<Rightarrow> Some (vname @ ''.Msgsize()'')
     | Bytes \<Rightarrow> Some (''msgp.BytesPrefixSize + len('' @ vname @ '')'')
     | String \<Rightarrow> Some (''msgp.StringPrefixSize + len('' @ vname @ '')'')
     | _ \<Rightarrow> Some (builtinSize basename))"

text \<open>
  \<open>gBase\<close>. The size expression is an argument of the print that follows, so a panic
  in \<open>baseSizeExpr\<close> ends the run before that print: the result is \<open>None\<close>.
\<close>

definition gBase :: "printer_env \<Rightarrow> BaseElem \<Rightarrow> sizeGen \<Rightarrow> sizeGen option" where
  "gBase env b s =
    (if \<not> ok s then Some s
     else if Convert' b \<and> ShimMode b = Convert then
       (let s1 = s\<lparr>state := add\<rparr>;
            vname = randIdent env (idents s1);
            s2 = s1\<lparr>idents := Suc (idents s1)\<rparr>;
            s3 = declare' env vname (BaseType b) s2;
            s4 = print (nl # ''_ = '' @ Varname b) s3
        in case baseSizeExpr (Value b) vname (BaseName b) of
             None \<Rightarrow> None
           | Some e \<Rightarrow> Some ((print (nl # ''s += '' @ e) s4)\<lparr>state := expr\<rparr>))
     else
       (let vname = (if Convert' b then toBaseConvert b else Varname b)
        in case baseSizeExpr (Value b) vname (BaseName b) of
             None \<Rightarrow> None
           | Some e \<Rightarrow> Some (addConstant e s)))"

text \<open>
  The dispatch \<open>next\<close> and the visitor cases \<open>gStruct\<close> (its two loops over the fields
  are \<open>gStruct_tuple\<close> and \<open>gStruct_map\<close>), \<open>gPtr\<close>, \<open>gSlice\<close>, \<open>gArray\<close>, \<open>gMap\<close>
  and \<open>gBase\<close>. \<open>rangeBlock\<close> opens the loop, visits the element and closes the block.
\<close>

fun "next" :: "printer_env \<Rightarrow> Elem \<Rightarrow> sizeGen \<Rightarrow> sizeGen option"
  and gStruct_tuple :: "printer_env \<Rightarrow> StructField list \<Rightarrow> sizeGen \<Rightarrow> sizeGen option"
  and gStruct_map :: "printer_env \<Rightarrow> StructField list \<Rightarrow> sizeGen \<Rightarrow> sizeGen option" where
  "next env (Struct fs tup) s =
    (if \<not> ok s then Some s
     else
       let nfields = (of_nat (length fs) :: 32 word) in
       if tup then
         gStruct_tuple env fs
           (addConstant (Itoa (int (length (AppendArrayHeader [] nfields)))) s)
       else
         gStruct_map env fs
           (addConstant (Itoa (int (length (AppendMapHeader [] nfields)))) s))"
| "gStruct_tuple env [] s = Some s"
| "gStruct_tuple env (StructField tag el # fs) s =
    (if \<not> ok s then Some s
     else case next env el s of None \<Rightarrow> None | Some s' \<Rightarrow> gStruct_tuple env fs s')"
| "gStruct_map env [] s = Some s"
| "gStruct_map env (StructField tag el # fs) s =
    (case next env el (addConstant (Itoa (int (length (AppendString [] tag)))) s) of
       None \<Rightarrow> None
     | Some s' \<Rightarrow> gStruct_map env fs s')"
| "next env (Ptr vn v) s =
    (case next env v
        (print (nl # ''if '' @ vn @ '' == nil {'' @ nl # ''s += msgp.NilSize'' @ nl # ''} else {'')
           (s\<lparr>state := add\<rparr>)) of
       None \<Rightarrow> None
     | Some s' \<Rightarrow> Some (closeBlock env (s'\<lparr>state := add\<rparr>)))"
| "next env (Slice vn idx els) s =
    (if \<not> ok s then Some s
     else
       let s1 = addConstant (builtinSize (arrayHeader env)) s in
       case fixedSizeExpr els of
         (str, True) \<Rightarrow> Some (addConstant (''('' @ lenExpr vn @ '' * ('' @ str @ ''))'') s1)
       | (str, False) \<Rightarrow>
           (case next env els (print (rangeBlock_text env idx vn) (s1\<lparr>state := add\<rparr>)) of
              None \<Rightarrow> None
            | Some s' \<Rightarrow> Some ((closeBlock env s')\<lparr>state := add\<rparr>)))"
| "next env (Array vn idx sz els) s =
    (if \<not> ok s then Some s
     else
       let s1 = addConstant (builtinSize (arrayHeader env)) s in
       case fixedSizeExpr (Array vn idx sz els) of
         (str, True) \<Rightarrow> Some (addConstant str s1)
       | (str, False) \<Rightarrow>
           (case next env els (print (rangeBlock_text env idx vn) (s1\<lparr>state := add\<rparr>)) of
              None \<Rightarrow> None
            | Some s' \<Rightarrow> Some ((closeBlock env s')\<lparr>state := add\<rparr>)))"
| "next env (Map vn k v el) s =
    (let s1 = addConstant (builtinSize (mapHeader env)) s;
         s2 = print (nl # ''if '' @ vn @ '' != nil {'') s1;
         s3 = print (nl # ''for '' @ k @ '', '' @ v @ '' := range '' @ vn @ '' {'') s2;
         s4 = print (nl # ''_ = '' @ v) s3;
         s5 = print (nl # ''s += msgp.StringPrefixSize + len('' @ k @ '')'') s4
     in case next env el (s5\<lparr>state := expr\<rparr>) of
          None \<Rightarrow> None
        | Some s' \<Rightarrow> Some ((closeBlock env (closeBlock env s'))\<lparr>state := add\<rparr>))"
| "next env (Base b) s = gBase env b s"

text \<open>
  The generator as \<open>sizes(w)\<close> creates it, and the body that \<open>Execute\<close> emits between
  the function header and the return: \<open>s.state = assign\<close>, then \<open>next(s, p)\<close>.
\<close>

definition sizeGen_new :: sizeGen where
  "sizeGen_new = \<lparr>p_w = [], p_err = False, state = assign, idents = 0\<rparr>"

definition Execute_body :: "printer_env \<Rightarrow> Elem \<Rightarrow> sizeGen \<Rightarrow> sizeGen option" where
  "Execute_body env p s = next env p (s\<lparr>state := assign\<rparr>)"

text \<open>A base element of primitive \<open>Int32\<close> without a shim, named \<open>v\<close>.\<close>

definition int32_elem :: "string \<Rightarrow> BaseElem" where
  "int32_elem v = \<lparr>Value = Int32, Varname = v, Convert' = False, ShimMode = Cast,
     BaseName = ''Int32'', BaseType = ''int32'', toBaseConvert = []\<rparr>"

subsection \<open>What an emitted body computes\<close>

text \<open>
  Modelled from the spec: the size constants of the codec library, whose file is not
  among the sources. Section 4.4 charges every fixed-width value at the size of its
  widest wire form, the prefix byte and the payload: 5 bytes for an int32 (section 8,
  scenario 7), and likewise for the other integers, the floats, booleans and nil.
\<close>

definition size_const :: "string \<Rightarrow> nat option" where
  "size_const name =
    (if name = ''msgp.NilSize'' then Some 1
     else if name = ''msgp.BoolSize'' then Some 1
     else if name = ''msgp.Int8Size'' then Some 2
     else if name = ''msgp.Int16Size'' then Some 3
     else if name = ''msgp.Int32Size'' then Some 5
     else if name = ''msgp.Int64Size'' then Some 9
     else if name = ''msgp.Uint8Size'' then Some 2
     else if name = ''msgp.Uint16Size'' then Some 3
     else if name = ''msgp.Uint32Size'' then Some 5
     else if name = ''msgp.Uint64Size'' then Some 9
     else if name = ''msgp.Float32Size'' then Some 5
     else if name = ''msgp.Float64Size'' then Some 9
     else None)"

text \<open>
  The value of an emitted body that is one assignment \<open>s = t1 + ... + tn\<close> whose terms
  are decimal literals or size constants; \<open>None\<close> for any other text, a body with a
  second line (a loop, a branch, a further statement) among them.
\<close>

definition is_digit :: "char \<Rightarrow> bool" where
  "is_digit c = (c \<in> set ''0123456789'')"

definition digit_value :: "char \<Rightarrow> nat" where
  "digit_value c = of_char c - 48"

definition term_value :: "string \<Rightarrow> nat option" where
  "term_value t =
    (if t \<noteq> [] \<and> list_all is_digit t
     then Some (foldl (\<lambda>acc c. 10 * acc + digit_value c) 0 t)
     else size_const t)"

function split_plus :: "string \<Rightarrow> string \<Rightarrow> string list" where
  "split_plus cur rest =
    (if rest = [] then [cur]
     else if take 3 rest = '' + '' then cur # split_plus [] (drop 3 rest)
     else split_plus (cur @ [hd rest]) (tl rest))"
  by pat_completeness auto
termination
  by (relation "measure (\<lambda>(cur, rest). length rest)") auto

fun sum_values :: "nat option list \<Rightarrow> nat option" where
  "sum_values [] = Some 0"
| "sum_values (None # vs) = None"
| "sum_values (Some v # vs) = (case sum_values vs of None \<Rightarrow> None | Some w \<Rightarrow> Some (v + w))"

definition body_value :: "string \<Rightarrow> nat option" where
  "body_value body =
    (if take 5 body = nl # ''s = '' \<and> nl \<notin> set (drop 5 body)
     then sum_values (map term_value (split_plus [] (drop 5 body)))
     else None)"

section \<open>Properties of the readers\<close>

lemmas fix_defs = isfixint_def isnfixint_def isfixmap_def isfixarray_def isfixstr_def
  rfixint_def rnfixint_def rfixmap_def rfixarray_def rfixstr_def

lemmas be_defs = big_Uint16_def big_Uint32_def big_Uint64_def be_word_def

subsection \<open>Map keys that are binaries\<close>

lemma getType_bin:
  "getType mbin8 = BinType" "getType mbin16 = BinType" "getType mbin32 = BinType"
  by (simp_all add: getType_def sizes_def prefix_defs fix_defs spec_of_def)

lemma ReadStringZC_bin:
  assumes "b \<noteq> []" and "b ! 0 = mbin8 \<or> b ! 0 = mbin16 \<or> b ! 0 = mbin32"
  shows "ReadStringZC b = ([], [], Some (TypeError StrType BinType))"
proof -
  have len: "\<not> length b < 1" using assms(1) by (cases b) simp_all
  from assms(2) show ?thesis
  proof (elim disjE)
    assume "b ! 0 = mbin8"
    then show ?thesis using len
      by (simp add: ReadStringZC_def Let_def getType_bin)
        (simp add: prefix_defs isfixstr_def)
  next
    assume "b ! 0 = mbin16"
    then show ?thesis using len
      by (simp add: ReadStringZC_def Let_def getType_bin)
        (simp add: prefix_defs isfixstr_def)
  next
    assume "b ! 0 = mbin32"
    then show ?thesis using len
      by (simp add: ReadStringZC_def Let_def getType_bin)
        (simp add: prefix_defs isfixstr_def)
  qed
qed

lemma ReadBytesZC_nil: "ReadBytesZC [] = ([], [], Some ErrShortBytes)"
  by (simp add: ReadBytesZC_def readBytesBytes_def)

text \<open>
  On a bin prefix \<open>ReadStringZC\<close> returns the nil slice next to its type error, and
  that slice is what \<open>ReadMapKeyZC\<close> hands to \<open>ReadBytesZC\<close>: whatever follows the
  prefix, the fallback reads from no bytes at all.
\<close>

lemma ReadMapKeyZC_bin:
  assumes "b \<noteq> []" and "b ! 0 = mbin8 \<or> b ! 0 = mbin16 \<or> b ! 0 = mbin32"
  shows "ReadMapKeyZC b = ([], [], Some ErrShortBytes)"
  by (simp add: ReadMapKeyZC_def ReadStringZC_bin [OF assms] ReadBytesZC_nil)

text \<open>A key that is a str is read as \<open>ReadStringZC\<close> reads it.\<close>

lemma ReadMapKeyZC_str:
  assumes "ReadStringZC b = (v, b1, None)"
  shows "ReadMapKeyZC b = (v, b1, None)"
  using assms by (simp add: ReadMapKeyZC_def)

text \<open>
  Claim C1: for a slice whose first object is a bin with its whole payload,
  \<open>ReadMapKeyZC\<close> is said to succeed with the payload and the tail, as \<open>ReadBytesZC\<close>
  does. On the bin8 object \<open>c4 01 61\<close> the code returns \<open>ErrShortBytes\<close> and no key,
  while \<open>ReadBytesZC\<close> on the same bytes returns the payload \<open>61\<close> and the empty tail.
\<close>

theorem ReadMapKeyZC_bin_key_short_bytes:
  "ReadMapKeyZC [0xc4, 0x01, 0x61] = ([], [], Some ErrShortBytes)
   \<and> ReadBytesZC [0xc4, 0x01, 0x61] = ([0x61], [], None)"
  by (simp add: ReadMapKeyZC_def ReadStringZC_bin ReadBytesZC_nil mbin8_def)
    (simp add: ReadBytesZC_def readBytesBytes_def prefix_defs)

subsection \<open>Integers\<close>

text \<open>
  What holds of the integer readers: a uint16 of 256 overflows an int8, a uint64 is
  refused exactly when it exceeds the largest int64, and a uint32 is returned as the
  sign extension of its four bytes.
\<close>

lemma ReadInt8Bytes_uint16_256:
  "ReadInt8Bytes [0xcd, 0x01, 0x00] = (0, [], Some (IntOverflow 256 8))"
  by (simp add: ReadInt8Bytes_def ReadInt64Bytes_def prefix_defs fix_defs getMuint16_def be_defs)

lemma muint64_not_fix: "\<not> isfixint muint64" "\<not> isnfixint muint64"
  by (simp_all add: prefix_defs fix_defs)

lemma ReadInt64Bytes_uint64:
  assumes "9 \<le> length b" and "b ! 0 = muint64"
  shows "ReadInt64Bytes b =
    (if getMuint64 b > MaxInt64 then (0, b, Some (UintOverflow (getMuint64 b) 64))
     else (getMuint64 b, drop 9 b, None))"
proof -
  have ne: "muint64 \<noteq> mint8" "muint64 \<noteq> muint8" "muint64 \<noteq> mint16" "muint64 \<noteq> muint16"
    "muint64 \<noteq> mint32" "muint64 \<noteq> muint32" "muint64 \<noteq> mint64"
    by (simp_all add: prefix_defs)
  from assms(1) have l: "\<not> length b < 1" "\<not> length b < 9" by (cases b; simp)+
  show ?thesis
    unfolding ReadInt64Bytes_def Let_def assms(2)
    using l ne muint64_not_fix by (simp only: if_False simp_thms if_True)
qed

lemma ReadInt64Bytes_uint32:
  assumes "5 \<le> length b" and "b ! 0 = muint32"
  shows "ReadInt64Bytes b = (scast (getMuint32 b), drop 5 b, None)"
proof -
  have ne: "muint32 \<noteq> mint8" "muint32 \<noteq> muint8" "muint32 \<noteq> mint16" "muint32 \<noteq> muint16"
    "muint32 \<noteq> mint32" "\<not> isfixint muint32" "\<not> isnfixint muint32"
    by (simp_all add: prefix_defs fix_defs)
  from assms(1) have l: "\<not> length b < 1" "\<not> length b < 5" by (cases b; simp)+
  show ?thesis
    unfolding ReadInt64Bytes_def Let_def assms(2) getMint32_def getMuint32_def
    using l ne by (simp only: if_False simp_thms if_True)
qed

text \<open>
  Claim C2: \<open>ReadInt64Bytes\<close> is said to return the encoded value for every unsigned
  wire form that fits, any uint32 among them. On \<open>ce ff ff ff ff\<close>, the uint32
  4294967295, the code returns \<open>-1\<close>: the uint32 branch reads the four bytes as a
  signed int32.
\<close>

theorem ReadInt64Bytes_uint32_read_signed:
  "ReadInt64Bytes [0xce, 0xff, 0xff, 0xff, 0xff] = (- 1, [], None)
   \<and> ucast (getMuint32 [0xce, 0xff, 0xff, 0xff, 0xff]) = (0xffffffff :: 64 word)"
  by (simp add: ReadInt64Bytes_def prefix_defs fix_defs getMint32_def getMuint32_def be_defs)

subsection \<open>Skipping\<close>

text \<open>
  An entry with a variable length has its length field inside the fixed part: at least
  2 bytes, 3 when the field has two bytes and 5 when it has four.
\<close>

lemma sizes_variable_header: "extra (sizes x) < 0 \<longrightarrow> 2 \<le> size (sizes x)
    \<and> (extra (sizes x) \<noteq> extra8 \<longrightarrow> 3 \<le> size (sizes x))
    \<and> (extra (sizes x) = extra32 \<or> extra (sizes x) = map32v \<or> extra (sizes x) = array32v \<longrightarrow> 5 \<le> size (sizes x))"
proof -
  define P where "P = (\<lambda>s::bytespec. extra s < 0 \<longrightarrow> 2 \<le> size s
    \<and> (extra s \<noteq> extra8 \<longrightarrow> 3 \<le> size s)
    \<and> (extra s = extra32 \<or> extra s = map32v \<or> extra s = array32v \<longrightarrow> 5 \<le> size s))"
  have leaf: "\<And>n m t. m \<ge> 0 \<or> (2 \<le> n \<and> (m \<noteq> extra8 \<longrightarrow> 3 \<le> n) \<and> (m = extra32 \<or> m = map32v \<or> m = array32v \<longrightarrow> 5 \<le> n)) \<Longrightarrow> P (spec_of n m t)"
    by (auto simp: P_def spec_of_def)
  have ifP: "\<And>c a b. (c \<Longrightarrow> P a) \<Longrightarrow> (\<not> c \<Longrightarrow> P b) \<Longrightarrow> P (if c then a else b)"
    by simp
  have "P (sizes x)"
    unfolding sizes_def
    by (intro ifP leaf; simp add: mode_defs)
  then show ?thesis by (simp add: P_def)
qed


text \<open>The header decides alone: bytes after the object do not change \<open>getSize\<close>.\<close>

lemma getSize_append:
  assumes "getSize b = (n, m, None)"
  shows "getSize (b @ t) = (n, m, None)"
proof -
  from assms have ne: "b \<noteq> []" by (auto simp: getSize_def)
  define sp where "sp = sizes (b ! 0)"
  have hd0: "(b @ t) ! 0 = b ! 0" using ne by (simp add: nth_append)
  have sz0: "size sp \<noteq> 0" using assms ne by (auto simp: getSize_def Let_def sp_def split: if_splits)
  show ?thesis
  proof (cases "extra sp \<ge> 0")
    case True
    with assms ne hd0 sz0 show ?thesis by (simp add: getSize_def Let_def sp_def)
  next
    case False
    then have neg: "extra sp < 0" by simp
    from assms ne sz0 False have szl: "\<not> length b < size sp"
      by (auto simp: getSize_def Let_def sp_def split: if_splits)
    from sizes_variable_header [of "b ! 0"] neg
    have two: "2 \<le> size sp"
      and three: "extra sp \<noteq> extra8 \<Longrightarrow> 3 \<le> size sp"
      and five: "extra sp = extra32 \<or> extra sp = map32v \<or> extra sp = array32v \<Longrightarrow> 5 \<le> size sp"
      by (simp_all add: sp_def)
    have b1: "(b @ t) ! 1 = b ! 1" using szl two by (simp add: nth_append)
    have u16: "big_Uint16 (drop 1 (b @ t)) = big_Uint16 (drop 1 b)" if "extra sp \<noteq> extra8"
      using three [OF that] szl by (simp add: big_Uint16_def)
    have u32: "big_Uint32 (drop 1 (b @ t)) = big_Uint32 (drop 1 b)"
      if "extra sp = extra32 \<or> extra sp = map32v \<or> extra sp = array32v"
      using five [OF that] szl by (simp add: big_Uint32_def)
    have szl': "\<not> length b + length t < size sp" using szl by simp
    have g: "getSize b =
       (if extra sp = extra8 then (size sp + unat (b ! 1), 0, None)
        else if extra sp = extra16 then (size sp + unat (big_Uint16 (drop 1 b)), 0, None)
        else if extra sp = extra32 then (size sp + unat (big_Uint32 (drop 1 b)), 0, None)
        else if extra sp = map16v then (size sp, 2 * unat (big_Uint16 (drop 1 b)), None)
        else if extra sp = map32v then (size sp, 2 * unat (big_Uint32 (drop 1 b)), None)
        else if extra sp = array16v then (size sp, unat (big_Uint16 (drop 1 b)), None)
        else if extra sp = array32v then (size sp, unat (big_Uint32 (drop 1 b)), None)
        else (0, 0, Some fatal))"
      using ne sz0 False szl by (simp add: getSize_def Let_def sp_def)
    have g': "getSize (b @ t) =
       (if extra sp = extra8 then (size sp + unat ((b @ t) ! 1), 0, None)
        else if extra sp = extra16 then (size sp + unat (big_Uint16 (drop 1 (b @ t))), 0, None)
        else if extra sp = extra32 then (size sp + unat (big_Uint32 (drop 1 (b @ t))), 0, None)
        else if extra sp = map16v then (size sp, 2 * unat (big_Uint16 (drop 1 (b @ t))), None)
        else if extra sp = map32v then (size sp, 2 * unat (big_Uint32 (drop 1 (b @ t))), None)
        else if extra sp = array16v then (size sp, unat (big_Uint16 (drop 1 (b @ t))), None)
        else if extra sp = array32v then (size sp, unat (big_Uint32 (drop 1 (b @ t))), None)
        else (0, 0, Some fatal))"
      using ne sz0 False szl' hd0 by (simp add: getSize_def Let_def sp_def del: nth_append_length)
    have "getSize (b @ t) = getSize b"
      unfolding g g' using b1 u16 u32 by (simp add: mode_defs)
    with assms show ?thesis by simp
  qed
qed


lemma Skip_frame:
  "Skip b = (b1, None) \<Longrightarrow> Skip (b @ t) = (b1 @ t, None)"
  "Skip_loop m b = (b1, None) \<Longrightarrow> Skip_loop m (b @ t) = (b1 @ t, None)"
proof (induction b and m b arbitrary: b1 and b1 rule: Skip_Skip_loop.induct)
  case (1 b)
  obtain sz asz e where g: "getSize b = (sz, asz, e)" by (cases "getSize b") auto
  show ?case
  proof (cases e)
    case (Some err)
    with g "1.prems" show ?thesis by simp
  next
    case None
    with g "1.prems" have le: "\<not> length b < sz" by (auto split: if_splits)
    with g None "1.prems" have inner: "Skip_loop asz (drop sz b) = (b1, None)" by simp
    from "1.IH" [OF g [symmetric] refl None le inner]
    have "Skip_loop asz (drop sz b @ t) = (b1 @ t, None)" .
    moreover have "getSize (b @ t) = (sz, asz, None)"
      using g None by (simp add: getSize_append)
    ultimately show ?thesis using le by simp
  qed
next
  case (2 asz b)
  show ?case
  proof (cases "asz > 0")
    case False
    with "2.prems" show ?thesis by simp
  next
    case True
    obtain b' e where s: "Skip b = (b', e)" by (cases "Skip b") auto
    show ?thesis
    proof (cases e)
      case (Some err)
      with s True "2.prems" show ?thesis by simp
    next
      case None
      from "2.IH"(1) [OF True] s None have s': "Skip (b @ t) = (b' @ t, None)" by simp
      from s None True "2.prems" have "Skip_loop (asz - 1) b' = (b1, None)" by simp
      from "2.IH"(2) [OF True s [symmetric] None this]
      have "Skip_loop (asz - 1) (b' @ t) = (b1 @ t, None)" .
      with s' True show ?thesis by simp
    qed
  qed
qed

lemma Skip_suffix:
  "Skip b = (b1, None) \<Longrightarrow> \<exists>p. p \<noteq> [] \<and> b = p @ b1"
  "Skip_loop m b = (b1, None) \<Longrightarrow> \<exists>p. b = p @ b1"
proof (induction b and m b arbitrary: b1 and b1 rule: Skip_Skip_loop.induct)
  case (1 b)
  obtain sz asz e where g: "getSize b = (sz, asz, e)" by (cases "getSize b") auto
  show ?case
  proof (cases e)
    case (Some err)
    with g "1.prems" show ?thesis by simp
  next
    case None
    with g "1.prems" have le: "\<not> length b < sz" by (auto split: if_splits)
    with g None "1.prems" have inner: "Skip_loop asz (drop sz b) = (b1, None)" by simp
    from "1.IH" [OF g [symmetric] refl None le inner]
    obtain p where p: "drop sz b = p @ b1" by blast
    have "0 < sz" using g None by (simp add: getSize_pos)
    with le have "take sz b \<noteq> []" by auto
    moreover have "b = (take sz b @ p) @ b1" using p by (metis append_assoc append_take_drop_id)
    ultimately show ?thesis by blast
  qed
next
  case (2 asz b)
  show ?case
  proof (cases "asz > 0")
    case False
    with "2.prems" show ?thesis by simp
  next
    case True
    obtain b' e where s: "Skip b = (b', e)" by (cases "Skip b") auto
    show ?thesis
    proof (cases e)
      case (Some err)
      with s True "2.prems" show ?thesis by simp
    next
      case None
      from "2.IH"(1) [OF True] s None obtain p where p: "b = p @ b'" by auto
      from s None True "2.prems" have "Skip_loop (asz - 1) b' = (b1, None)" by simp
      from "2.IH"(2) [OF True s [symmetric] None this]
      obtain q where "b' = q @ b1" by blast
      with p have "b = (p @ q) @ b1" by simp
      then show ?thesis by blast
    qed
  qed
qed

lemma fixmap_not_fixint:
  assumes "isfixmap lead"
  shows "\<not> isfixint lead"
proof
  assume "isfixint lead"
  then have "bit (drop_bit 7 lead) 0 = bit (0 :: byte) 0" by (simp add: isfixint_def)
  then have n7: "\<not> bit lead 7" by (simp add: bit_drop_bit_eq)
  from assms have "bit (lead AND 0xf0) 7 = bit (0x80 :: byte) 7" by (simp add: isfixmap_def)
  then have "bit lead 7" by (simp add: bit_and_iff)
  with n7 show False by simp
qed

lemma getSize_fixmap:
  assumes "isfixmap lead"
  shows "getSize (lead # rest) = (1, 2 * unat (rfixmap lead), None)"
proof -
  have "sizes lead = spec_of 1 (2 * uint (rfixmap lead)) MapType"
    unfolding sizes_def using assms fixmap_not_fixint [OF assms] by (simp only: if_True if_False)
  then show ?thesis
    by (simp add: getSize_def spec_of_def nat_mult_distrib)
qed

lemma getSize_map16:
  assumes "2 \<le> length rest"
  shows "getSize (mmap16 # rest) = (3, 2 * unat (big_Uint16 rest), None)"
proof -
  have "sizes mmap16 = spec_of 3 map16v MapType"
    by (simp add: sizes_def prefix_defs fix_defs)
  with assms show ?thesis by (simp add: getSize_def spec_of_def mode_defs)
qed

lemma getSize_map32:
  assumes "4 \<le> length rest"
  shows "getSize (mmap32 # rest) = (5, 2 * unat (big_Uint32 rest), None)"
proof -
  have "sizes mmap32 = spec_of 5 map32v MapType"
    by (simp add: sizes_def prefix_defs fix_defs)
  with assms show ?thesis by (simp add: getSize_def spec_of_def mode_defs)
qed

lemmas sizes_eval = getSize_def sizes_def spec_of_def prefix_defs mode_defs fix_defs

subsection \<open>Skipping and the wire grammar\<close>

text \<open>
  The prefix table at the prefixes of each form of the grammar.
\<close>

lemma below16:
  fixes n :: nat
  assumes "n < 16"
  shows
  "n = 15 \<or> n = 14 \<or> n = 13 \<or> n = 12 \<or> n = 11 \<or> n = 10 \<or> n = 9
      \<or> n = 8 \<or> n = 7 \<or> n = 6 \<or> n = 5 \<or> n = 4 \<or> n = 3 \<or> n = 2
      \<or> n = 1 \<or> n = 0"
  using assms by arith

lemma below32:
  fixes n :: nat
  assumes "n < 32"
  shows
  "n = 31 \<or> n = 30 \<or> n = 29 \<or> n = 28 \<or> n = 27 \<or> n = 26 \<or> n = 25
      \<or> n = 24 \<or> n = 23 \<or> n = 22 \<or> n = 21 \<or> n = 20 \<or> n = 19
      \<or> n = 18 \<or> n = 17 \<or> n = 16 \<or> n = 15 \<or> n = 14 \<or> n = 13
      \<or> n = 12 \<or> n = 11 \<or> n = 10 \<or> n = 9 \<or> n = 8 \<or> n = 7 \<or> n = 6
      \<or> n = 5 \<or> n = 4 \<or> n = 3 \<or> n = 2 \<or> n = 1 \<or> n = 0"
  using assms by arith

lemma sizes_fixmap: "n < 16 \<Longrightarrow> sizes (0x80 + of_nat n) = spec_of 1 (2 * int n) MapType"
  by (drule below16) (elim disjE; simp add: sizes_def fix_defs)

lemma sizes_fixarray: "n < 16 \<Longrightarrow> sizes (0x90 + of_nat n) = spec_of 1 (int n) ArrayType"
  by (drule below16) (elim disjE; simp add: sizes_def fix_defs)

lemma sizes_fixstr: "n < 32 \<Longrightarrow> sizes (0xa0 + of_nat n) = spec_of (1 + n) constsize StrType"
  by (drule below32) (elim disjE; simp add: sizes_def fix_defs)

lemma sizes_nfixint: "n < 32 \<Longrightarrow> sizes (0xe0 + of_nat n) = spec_of 1 constsize IntType"
  by (drule below32) (elim disjE; simp add: sizes_def fix_defs)

lemma isfixint_of_nat: "n < 128 \<Longrightarrow> isfixint (of_nat n)"
proof -
  assume "n < 128"
  then have "unat (of_nat n :: byte) = n" by (simp add: unat_of_nat)
  then have "unat (drop_bit 7 (of_nat n :: byte)) = n div 128"
    by (simp add: unat_drop_bit_eq drop_bit_eq_div unat_div)
  with \<open>n < 128\<close> have "unat (drop_bit 7 (of_nat n :: byte)) = 0" by simp
  then show ?thesis by (simp add: isfixint_def unat_0_iff)
qed

lemma sizes_pfixint: "n < 128 \<Longrightarrow> sizes (of_nat n) = spec_of 1 constsize IntType"
  by (simp add: sizes_def isfixint_of_nat)

lemma sizes_fixed:
  "sizes mnil = spec_of 1 constsize NilType"
  "sizes mfalse = spec_of 1 constsize BoolType"
  "sizes mtrue = spec_of 1 constsize BoolType"
  "sizes mfloat32 = spec_of 5 constsize Float32Type"
  "sizes mfloat64 = spec_of 9 constsize Float64Type"
  "sizes muint8 = spec_of 2 constsize UintType"
  "sizes muint16 = spec_of 3 constsize UintType"
  "sizes muint32 = spec_of 5 constsize UintType"
  "sizes muint64 = spec_of 9 constsize UintType"
  "sizes mint8 = spec_of 2 constsize IntType"
  "sizes mint16 = spec_of 3 constsize IntType"
  "sizes mint32 = spec_of 5 constsize IntType"
  "sizes mint64 = spec_of 9 constsize IntType"
  "sizes mfixext1 = spec_of 3 constsize ExtensionType"
  "sizes mfixext2 = spec_of 4 constsize ExtensionType"
  "sizes mfixext4 = spec_of 6 constsize ExtensionType"
  "sizes mfixext8 = spec_of 10 constsize ExtensionType"
  "sizes mfixext16 = spec_of 18 constsize ExtensionType"
  by (simp_all add: sizes_def prefix_defs fix_defs)

lemma sizes_variable:
  "sizes mbin8 = spec_of 2 extra8 BinType"
  "sizes mbin16 = spec_of 3 extra16 BinType"
  "sizes mbin32 = spec_of 5 extra32 BinType"
  "sizes mext8 = spec_of 3 extra8 ExtensionType"
  "sizes mext16 = spec_of 4 extra16 ExtensionType"
  "sizes mext32 = spec_of 6 extra32 ExtensionType"
  "sizes mstr8 = spec_of 2 extra8 StrType"
  "sizes mstr16 = spec_of 3 extra16 StrType"
  "sizes mstr32 = spec_of 5 extra32 StrType"
  "sizes marray16 = spec_of 3 array16v ArrayType"
  "sizes marray32 = spec_of 5 array32v ArrayType"
  "sizes mmap16 = spec_of 3 map16v MapType"
  "sizes mmap32 = spec_of 5 map32v MapType"
  by (simp_all add: sizes_def prefix_defs fix_defs)

lemmas getSize_eval = getSize_def spec_of_def mode_defs big_Uint16_def big_Uint32_def

lemma object_Skip:
  "object x \<Longrightarrow> Skip x = ([], None)"
  "objects k xs \<Longrightarrow> Skip_loop k xs = ([], None)"
proof (induction rule: object_objects.inducts)
  case (pfixint n)
  then show ?case by (simp add: getSize_eval sizes_pfixint)
next
  case (nfixint n)
  then show ?case by (simp add: getSize_eval sizes_nfixint)
next
  case (fixed p n pl)
  from fixed(1) show ?case
    unfolding fixed_forms_def using fixed(2)
    by (auto simp: getSize_eval sizes_fixed)
next
  case (fixstr n pl)
  then show ?case by (simp add: getSize_eval sizes_fixstr)
next
  case (len8 p pl n)
  then show ?case by (auto simp: getSize_eval sizes_variable)
next
  case (len16 p pl h l)
  then show ?case by (auto simp: getSize_eval sizes_variable)
next
  case (len32 p pl a b c d)
  then show ?case by (auto simp: getSize_eval sizes_variable)
next
  case (ext8 pl n t)
  then show ?case by (simp add: getSize_eval sizes_variable)
next
  case (ext16 pl h l t)
  then show ?case by (simp add: getSize_eval sizes_variable)
next
  case (ext32 pl a b c d t)
  then show ?case by (simp add: getSize_eval sizes_variable)
next
  case (fixarray n pl)
  then show ?case by (simp add: getSize_eval sizes_fixarray)
next
  case (array16 h l pl)
  then show ?case by (simp add: getSize_eval sizes_variable)
next
  case (array32 a b c d pl)
  then show ?case by (simp add: getSize_eval sizes_variable)
next
  case (fixmap n pl)
  then show ?case by (simp add: getSize_eval sizes_fixmap nat_mult_distrib)
next
  case (map16 h l pl)
  then show ?case by (simp add: getSize_eval sizes_variable)
next
  case (map32 a b c d pl)
  then show ?case by (simp add: getSize_eval sizes_variable)
next
  case none
  show ?case by simp
next
  case (more x n xs)
  from Skip_frame(1) [OF more.IH(1), of xs] have "Skip (x @ xs) = (xs, None)" by simp
  with more.IH(2) show ?case by simp
qed

text \<open>
  Conversely, the bytes that a successful \<open>getSize\<close> delimits, followed by the
  objects it announces, are one object of the grammar. The prefix forms are read off
  the predicates by going through the 256 bytes.
\<close>

lemma byte_all:
  assumes "P 0" and "P 1" and "\<forall>n \<in> set [2..<256]. P (of_nat n :: byte)"
  shows "P x"
proof -
  have "unat x < 256" using unsigned_less [of x, where 'a = nat] by simp
  then have "unat x = 0 \<or> unat x = 1 \<or> unat x \<in> set [2..<256]"
    by (simp only: set_upt atLeastLessThan_iff) arith
  moreover have "P (of_nat (unat x))" if "unat x = 0" using assms(1) that by simp
  moreover have "P (of_nat (unat x))" if "unat x = 1" using assms(2) that by simp
  moreover have "P (of_nat (unat x))" if "unat x \<in> set [2..<256]" using assms(3) that by blast
  ultimately have "P (of_nat (unat x))" by blast
  then show ?thesis by simp
qed

lemma fixint_form: "isfixint x \<longrightarrow> unat x < 128"
  by (rule byte_all [of "\<lambda>x. isfixint x \<longrightarrow> unat x < 128"]) (simp_all add: fix_defs del: set_upt)

lemma fixmap_form:
  "isfixmap x \<longrightarrow> x = 0x80 + of_nat (unat (rfixmap x)) \<and> unat (rfixmap x) < 16"
  by (rule byte_all [of "\<lambda>x. isfixmap x \<longrightarrow> x = 0x80 + of_nat (unat (rfixmap x)) \<and> unat (rfixmap x) < 16"])
    (simp_all add: fix_defs del: set_upt)

lemma fixarray_form:
  "isfixarray x \<longrightarrow> x = 0x90 + of_nat (unat (rfixarray x)) \<and> unat (rfixarray x) < 16"
  by (rule byte_all [of "\<lambda>x. isfixarray x \<longrightarrow> x = 0x90 + of_nat (unat (rfixarray x)) \<and> unat (rfixarray x) < 16"])
    (simp_all add: fix_defs del: set_upt)

lemma fixstr_form:
  "isfixstr x \<longrightarrow> x = 0xa0 + of_nat (unat (rfixstr x)) \<and> unat (rfixstr x) < 32"
  by (rule byte_all [of "\<lambda>x. isfixstr x \<longrightarrow> x = 0xa0 + of_nat (unat (rfixstr x)) \<and> unat (rfixstr x) < 32"])
    (simp_all add: fix_defs del: set_upt)

lemma nfixint_form:
  "isnfixint x \<longrightarrow> x = 0xe0 + of_nat (unat (x AND 0x1f)) \<and> unat (x AND 0x1f) < 32"
  by (rule byte_all [of "\<lambda>x. isnfixint x \<longrightarrow> x = 0xe0 + of_nat (unat (x AND 0x1f)) \<and> unat (x AND 0x1f) < 32"])
    (simp_all add: fix_defs del: set_upt)

lemma take_header:
  "take (2 + m) (x1 # x2 # r) = x1 # x2 # take m r"
  "take (3 + m) (x1 # x2 # x3 # r) = x1 # x2 # x3 # take m r"
  "take (4 + m) (x1 # x2 # x3 # x4 # r) = x1 # x2 # x3 # x4 # take m r"
  "take (5 + m) (x1 # x2 # x3 # x4 # x5 # r) = x1 # x2 # x3 # x4 # x5 # take m r"
  "take (6 + m) (x1 # x2 # x3 # x4 # x5 # x6 # r) = x1 # x2 # x3 # x4 # x5 # x6 # take m r"
  by (simp_all add: numeral_eq_Suc)

lemma objects_0: "objects 0 xs \<Longrightarrow> xs = []"
  by (cases rule: objects.cases) auto

lemma header_object:
  assumes g: "getSize b = (sz, asz, None)" and le: "sz \<le> length b" and os: "objects asz xs"
  shows "object (take sz b @ xs)"
proof -
  from g obtain lead rest where b: "b = lead # rest" by (cases b) (auto simp: getSize_def)
  define G where "G \<equiv> \<lambda>s::bytespec.
     if size s = 0 then (0, 0, Some (InvalidPrefixError lead))
     else if extra s \<ge> 0 then (size s, nat (extra s), None)
     else if length b < size s then (0, 0, Some ErrShortBytes)
     else if extra s = extra8 then (size s + unat (b ! 1), 0, None)
     else if extra s = extra16 then (size s + unat (big_Uint16 (drop 1 b)), 0, None)
     else if extra s = extra32 then (size s + unat (big_Uint32 (drop 1 b)), 0, None)
     else if extra s = map16v then (size s, 2 * unat (big_Uint16 (drop 1 b)), None)
     else if extra s = map32v then (size s, 2 * unat (big_Uint32 (drop 1 b)), None)
     else if extra s = array16v then (size s, unat (big_Uint16 (drop 1 b)), None)
     else if extra s = array32v then (size s, unat (big_Uint32 (drop 1 b)), None)
     else (0, 0, Some fatal)"
  have gG: "getSize b = G (sizes lead)" by (simp add: getSize_def G_def b Let_def)
  define P where "P \<equiv> \<lambda>s. G s = (sz, asz, None) \<longrightarrow> object (take sz b @ xs)"
  have ifP: "\<And>c u v. (c \<Longrightarrow> P u) \<Longrightarrow> (\<not> c \<Longrightarrow> P v) \<Longrightarrow> P (if c then u else v)" by simp
  have nil: "asz = 0 \<Longrightarrow> xs = []" using os objects_0 by simp
  have Linv: "P (spec_of 0 m t)" for m t by (simp add: P_def G_def spec_of_def)
  have Lfixint: "P (spec_of 1 constsize t)" if "isfixint lead" for t
  proof -
    from that fixint_form have "unat lead < 128" by blast
    from pfixint [OF this] have "object [lead]" by simp
    then show ?thesis using nil by (auto simp: P_def G_def spec_of_def constsize_def b)
  qed
  have Lnfixint: "P (spec_of 1 constsize t)" if "isnfixint lead" for t
  proof -
    from that nfixint_form [of lead]
    have "lead = 0xe0 + of_nat (unat (lead AND 0x1f))" and "unat (lead AND 0x1f) < 32" by blast+
    with nfixint [of "unat (lead AND 0x1f)"] have "object [lead]" by simp
    then show ?thesis using nil by (auto simp: P_def G_def spec_of_def constsize_def b)
  qed
  have Lfixmap: "P (spec_of 1 (2 * uint (rfixmap lead)) t)" if "isfixmap lead" for t
  proof -
    from that fixmap_form [of lead]
    have e: "lead = 0x80 + of_nat (unat (rfixmap lead))" and l: "unat (rfixmap lead) < 16" by blast+
    show ?thesis unfolding P_def
    proof
      assume "G (spec_of 1 (2 * uint (rfixmap lead)) t) = (sz, asz, None)"
      then have "sz = 1" and "asz = 2 * unat (rfixmap lead)"
        by (simp_all add: G_def spec_of_def nat_mult_distrib)
      with os have "objects (2 * unat (rfixmap lead)) xs" by simp
      from fixmap [OF l this] e have "object (lead # xs)" by simp
      with \<open>sz = 1\<close> show "object (take sz b @ xs)" by (simp add: b)
    qed
  qed
  have Lfixarray: "P (spec_of 1 (uint (rfixarray lead)) t)" if "isfixarray lead" for t
  proof -
    from that fixarray_form [of lead]
    have e: "lead = 0x90 + of_nat (unat (rfixarray lead))" and l: "unat (rfixarray lead) < 16" by blast+
    show ?thesis unfolding P_def
    proof
      assume "G (spec_of 1 (uint (rfixarray lead)) t) = (sz, asz, None)"
      then have "sz = 1" and "asz = unat (rfixarray lead)"
        by (simp_all add: G_def spec_of_def)
      with os have "objects (unat (rfixarray lead)) xs" by simp
      from fixarray [OF l this] e have "object (lead # xs)" by simp
      with \<open>sz = 1\<close> show "object (take sz b @ xs)" by (simp add: b)
    qed
  qed
  have Lfixstr: "P (spec_of (1 + unat (rfixstr lead)) constsize t)" if "isfixstr lead" for t
  proof -
    from that fixstr_form [of lead]
    have e: "lead = 0xa0 + of_nat (unat (rfixstr lead))" and l: "unat (rfixstr lead) < 32" by blast+
    show ?thesis unfolding P_def
    proof
      assume "G (spec_of (1 + unat (rfixstr lead)) constsize t) = (sz, asz, None)"
      then have s: "sz = 1 + unat (rfixstr lead)" and "asz = 0"
        by (simp_all add: G_def spec_of_def constsize_def)
      with nil have x: "xs = []" by simp
      from s le have "length (take (unat (rfixstr lead)) rest) = unat (rfixstr lead)" by (simp add: b)
      from fixstr [OF l this] e have "object (lead # take (unat (rfixstr lead)) rest)" by simp
      with s x show "object (take sz b @ xs)" by (simp add: b)
    qed
  qed
  have Lfixed: "P (spec_of k constsize t)" if "lead = c" and "(c, k - 1) \<in> set fixed_forms" and "0 < k" for c k t
  unfolding P_def
  proof
    assume "G (spec_of k constsize t) = (sz, asz, None)"
    with that(3) have s: "sz = k" and "asz = 0" by (simp_all add: G_def spec_of_def constsize_def)
    with nil have x: "xs = []" by simp
    from s le that(3) have "length (take (k - 1) rest) = k - 1" by (simp add: b)
    from fixed [OF that(2) this] that(1) have "object (lead # take (k - 1) rest)" by simp
    moreover have "take sz b = lead # take (k - 1) rest" using s that(3) by (cases k) (simp_all add: b)
    ultimately show "object (take sz b @ xs)" using x by simp
  qed
  have two: "\<exists>n r. b = lead # n # r" if "\<not> length b < 2"
    using that by (cases rest) (auto simp: b)
  have three: "\<exists>h l r. b = lead # h # l # r" if "\<not> length b < 3"
  proof -
    from that obtain h r1 where "rest = h # r1" by (cases rest) (auto simp: b)
    moreover from that this obtain l r2 where "r1 = l # r2" by (cases r1) (auto simp: b)
    ultimately show ?thesis by (simp add: b)
  qed
  have five: "\<exists>a1 a2 a3 a4 r. b = lead # a1 # a2 # a3 # a4 # r" if "\<not> length b < 5"
  proof -
    from that obtain a1 r1 where 1: "rest = a1 # r1" by (cases rest) (auto simp: b)
    from that 1 obtain a2 r2 where 2: "r1 = a2 # r2" by (cases r1) (auto simp: b)
    from that 1 2 obtain a3 r3 where 3: "r2 = a3 # r3" by (cases r2) (auto simp: b)
    from that 1 2 3 obtain a4 r4 where 4: "r3 = a4 # r4" by (cases r3) (auto simp: b)
    from 1 2 3 4 show ?thesis by (simp add: b)
  qed
  have Llen8: "P (spec_of 2 extra8 t)" if "lead = c" and "c = mstr8 \<or> c = mbin8" for c t
  unfolding P_def
  proof
    assume a: "G (spec_of 2 extra8 t) = (sz, asz, None)"
    then have l2: "\<not> length b < 2" by (auto simp: G_def spec_of_def mode_defs split: if_splits)
    from two [OF l2] obtain n r where bb: "b = lead # n # r" by blast
    from a l2 have s: "sz = 2 + unat n" and "asz = 0"
      by (simp_all add: G_def spec_of_def mode_defs bb)
    with nil have x: "xs = []" by simp
    from s le have "length (take (unat n) r) = unat n" by (simp add: bb)
    from len8 [of lead, OF _ this] that have "object (lead # n # take (unat n) r)" by simp
    with s x show "object (take sz b @ xs)" by (simp add: bb take_header)
  qed
  have Lext8: "P (spec_of 3 extra8 t)" if "lead = mext8" for t
  unfolding P_def
  proof
    assume a: "G (spec_of 3 extra8 t) = (sz, asz, None)"
    then have l3: "\<not> length b < 3" by (auto simp: G_def spec_of_def mode_defs split: if_splits)
    from three [OF l3] obtain n ty r where bb: "b = lead # n # ty # r" by blast
    from a l3 have s: "sz = 3 + unat n" and "asz = 0"
      by (simp_all add: G_def spec_of_def mode_defs bb)
    with nil have x: "xs = []" by simp
    from s le have "length (take (unat n) r) = unat n" by (simp add: bb)
    from ext8 [OF this] that have "object (lead # n # ty # take (unat n) r)" by simp
    with s x show "object (take sz b @ xs)" by (simp add: bb take_header)
  qed
  have Llen16: "P (spec_of 3 extra16 t)" if "lead = c" and "c = mstr16 \<or> c = mbin16" for c t
  unfolding P_def
  proof
    assume a: "G (spec_of 3 extra16 t) = (sz, asz, None)"
    then have l3: "\<not> length b < 3" by (auto simp: G_def spec_of_def mode_defs split: if_splits)
    from three [OF l3] obtain h l r where bb: "b = lead # h # l # r" by blast
    define n where "n = unat (be_word [h, l] :: 16 word)"
    from a l3 have s: "sz = 3 + n" and "asz = 0"
      by (simp_all add: G_def spec_of_def mode_defs bb big_Uint16_def n_def)
    with nil have x: "xs = []" by simp
    from s le have "length (take n r) = unat (be_word [h, l] :: 16 word)" by (simp add: bb n_def)
    from len16 [of lead, OF _ this] that have "object (lead # h # l # take n r)" by simp
    with s x show "object (take sz b @ xs)" by (simp add: bb take_header)
  qed
  have four: "\<exists>a1 a2 a3 r. b = lead # a1 # a2 # a3 # r" if "\<not> length b < 4"
  proof -
    from that obtain a1 r1 where 1: "rest = a1 # r1" by (cases rest) (auto simp: b)
    from that 1 obtain a2 r2 where 2: "r1 = a2 # r2" by (cases r1) (auto simp: b)
    from that 1 2 obtain a3 r3 where 3: "r2 = a3 # r3" by (cases r2) (auto simp: b)
    from 1 2 3 show ?thesis by (simp add: b)
  qed
  have six: "\<exists>a1 a2 a3 a4 a5 r. b = lead # a1 # a2 # a3 # a4 # a5 # r" if "\<not> length b < 6"
  proof -
    from that obtain a1 r1 where 1: "rest = a1 # r1" by (cases rest) (auto simp: b)
    from that 1 obtain a2 r2 where 2: "r1 = a2 # r2" by (cases r1) (auto simp: b)
    from that 1 2 obtain a3 r3 where 3: "r2 = a3 # r3" by (cases r2) (auto simp: b)
    from that 1 2 3 obtain a4 r4 where 4: "r3 = a4 # r4" by (cases r3) (auto simp: b)
    from that 1 2 3 4 obtain a5 r5 where 5: "r4 = a5 # r5" by (cases r4) (auto simp: b)
    from 1 2 3 4 5 show ?thesis by (simp add: b)
  qed
  have Llen32: "P (spec_of 5 extra32 t)" if "lead = c" and "c = mstr32 \<or> c = mbin32" for c t
  unfolding P_def
  proof
    assume a: "G (spec_of 5 extra32 t) = (sz, asz, None)"
    then have lk: "\<not> length b < 5" by (auto simp: G_def spec_of_def mode_defs split: if_splits)
    from five [OF lk] obtain a1 a2 a3 a4 r where bb: "b = lead # a1 # a2 # a3 # a4 # r" by blast
    define n where "n = unat (be_word [a1, a2, a3, a4] :: 32 word)"
    from a lk have s: "sz = 5 + n" and "asz = 0"
      by (simp_all add: G_def spec_of_def mode_defs bb big_Uint32_def n_def)
    with nil have x: "xs = []" by simp
    from s le have "length (take n r) = unat (be_word [a1, a2, a3, a4] :: 32 word)"
      by (simp add: bb n_def)
    from len32 [of lead, OF _ this] that have "object (lead # a1 # a2 # a3 # a4 # take n r)" by simp
    with s x show "object (take sz b @ xs)" by (simp add: bb take_header)
  qed
  have Lext16: "P (spec_of 4 extra16 t)" if "lead = mext16" for t
  unfolding P_def
  proof
    assume a: "G (spec_of 4 extra16 t) = (sz, asz, None)"
    then have lk: "\<not> length b < 4" by (auto simp: G_def spec_of_def mode_defs split: if_splits)
    from four [OF lk] obtain h l ty r where bb: "b = lead # h # l # ty # r" by blast
    define n where "n = unat (be_word [h, l] :: 16 word)"
    from a lk have s: "sz = 4 + n" and "asz = 0"
      by (simp_all add: G_def spec_of_def mode_defs bb big_Uint16_def n_def)
    with nil have x: "xs = []" by simp
    from s le have "length (take n r) = unat (be_word [h, l] :: 16 word)" by (simp add: bb n_def)
    from ext16 [OF this] that have "object (lead # h # l # ty # take n r)" by simp
    with s x show "object (take sz b @ xs)" by (simp add: bb take_header)
  qed
  have Lext32: "P (spec_of 6 extra32 t)" if "lead = mext32" for t
  unfolding P_def
  proof
    assume a: "G (spec_of 6 extra32 t) = (sz, asz, None)"
    then have lk: "\<not> length b < 6" by (auto simp: G_def spec_of_def mode_defs split: if_splits)
    from six [OF lk] obtain a1 a2 a3 a4 ty r where bb: "b = lead # a1 # a2 # a3 # a4 # ty # r"
      by blast
    define n where "n = unat (be_word [a1, a2, a3, a4] :: 32 word)"
    from a lk have s: "sz = 6 + n" and "asz = 0"
      by (simp_all add: G_def spec_of_def mode_defs bb big_Uint32_def n_def)
    with nil have x: "xs = []" by simp
    from s le have "length (take n r) = unat (be_word [a1, a2, a3, a4] :: 32 word)"
      by (simp add: bb n_def)
    from ext32 [OF this] that have "object (lead # a1 # a2 # a3 # a4 # ty # take n r)" by simp
    with s x show "object (take sz b @ xs)" by (simp add: bb take_header)
  qed
  have Larray16: "P (spec_of 3 array16v t)" if "lead = marray16" for t
  unfolding P_def
  proof
    assume a: "G (spec_of 3 array16v t) = (sz, asz, None)"
    then have lk: "\<not> length b < 3" by (auto simp: G_def spec_of_def mode_defs split: if_splits)
    from three [OF lk] obtain h l r where bb: "b = lead # h # l # r" by blast
    from a lk have s: "sz = 3" and c: "asz = unat (be_word [h, l] :: 16 word)"
      by (simp_all add: G_def spec_of_def mode_defs bb big_Uint16_def)
    from os c have "objects (unat (be_word [h, l] :: 16 word)) xs" by simp
    from array16 [OF this] that have "object (lead # h # l # xs)" by simp
    with s show "object (take sz b @ xs)" by (simp add: bb)
  qed
  have Lmap16: "P (spec_of 3 map16v t)" if "lead = mmap16" for t
  unfolding P_def
  proof
    assume a: "G (spec_of 3 map16v t) = (sz, asz, None)"
    then have lk: "\<not> length b < 3" by (auto simp: G_def spec_of_def mode_defs split: if_splits)
    from three [OF lk] obtain h l r where bb: "b = lead # h # l # r" by blast
    from a lk have s: "sz = 3" and c: "asz = 2 * unat (be_word [h, l] :: 16 word)"
      by (simp_all add: G_def spec_of_def mode_defs bb big_Uint16_def)
    from os c have "objects (2 * unat (be_word [h, l] :: 16 word)) xs" by simp
    from map16 [OF this] that have "object (lead # h # l # xs)" by simp
    with s show "object (take sz b @ xs)" by (simp add: bb)
  qed
  have Larray32: "P (spec_of 5 array32v t)" if "lead = marray32" for t
  unfolding P_def
  proof
    assume a: "G (spec_of 5 array32v t) = (sz, asz, None)"
    then have lk: "\<not> length b < 5" by (auto simp: G_def spec_of_def mode_defs split: if_splits)
    from five [OF lk] obtain a1 a2 a3 a4 r where bb: "b = lead # a1 # a2 # a3 # a4 # r" by blast
    from a lk have s: "sz = 5" and c: "asz = unat (be_word [a1, a2, a3, a4] :: 32 word)"
      by (simp_all add: G_def spec_of_def mode_defs bb big_Uint32_def)
    from os c have "objects (unat (be_word [a1, a2, a3, a4] :: 32 word)) xs" by simp
    from array32 [OF this] that have "object (lead # a1 # a2 # a3 # a4 # xs)" by simp
    with s show "object (take sz b @ xs)" by (simp add: bb)
  qed
  have Lmap32: "P (spec_of 5 map32v t)" if "lead = mmap32" for t
  unfolding P_def
  proof
    assume a: "G (spec_of 5 map32v t) = (sz, asz, None)"
    then have lk: "\<not> length b < 5" by (auto simp: G_def spec_of_def mode_defs split: if_splits)
    from five [OF lk] obtain a1 a2 a3 a4 r where bb: "b = lead # a1 # a2 # a3 # a4 # r" by blast
    from a lk have s: "sz = 5" and c: "asz = 2 * unat (be_word [a1, a2, a3, a4] :: 32 word)"
      by (simp_all add: G_def spec_of_def mode_defs bb big_Uint32_def)
    from os c have "objects (2 * unat (be_word [a1, a2, a3, a4] :: 32 word)) xs" by simp
    from map32 [OF this] that have "object (lead # a1 # a2 # a3 # a4 # xs)" by simp
    with s show "object (take sz b @ xs)" by (simp add: bb)
  qed
  have "P (sizes lead)"
    unfolding sizes_def
    by (intro ifP;
        (rule Linv | erule Lfixint | erule Lfixmap | erule Lfixarray | erule Lfixstr
         | erule Lnfixint | erule Lext8 | erule Lext16 | erule Lext32 | erule Larray16
         | erule Larray32 | erule Lmap16 | erule Lmap32 | erule Llen8 | erule Llen16
         | erule Llen32 | erule Lfixed))
      (simp_all add: fixed_forms_def prefix_defs)
  with g gG show ?thesis by (simp add: P_def)
qed

lemma Skip_object:
  "Skip b = (b1, None) \<Longrightarrow> \<exists>x. object x \<and> b = x @ b1"
  "Skip_loop k b = (b1, None) \<Longrightarrow> \<exists>xs. objects k xs \<and> b = xs @ b1"
proof (induction b and k b arbitrary: b1 and b1 rule: Skip_Skip_loop.induct)
  case (1 b)
  obtain sz asz e where g: "getSize b = (sz, asz, e)" by (cases "getSize b") auto
  show ?case
  proof (cases e)
    case (Some err)
    with g "1.prems" show ?thesis by simp
  next
    case None
    with g "1.prems" have le: "\<not> length b < sz" by (auto split: if_splits)
    with g None "1.prems" have inner: "Skip_loop asz (drop sz b) = (b1, None)" by simp
    from "1.IH" [OF g [symmetric] refl None le inner]
    obtain xs where xs: "objects asz xs" and d: "drop sz b = xs @ b1" by blast
    from g None le xs have "object (take sz b @ xs)" by (intro header_object) simp_all
    moreover have "b = (take sz b @ xs) @ b1" using d by (metis append_assoc append_take_drop_id)
    ultimately show ?thesis by blast
  qed
next
  case (2 asz b)
  show ?case
  proof (cases "asz > 0")
    case False
    with "2.prems" none show ?thesis by auto
  next
    case True
    obtain b' e where s: "Skip b = (b', e)" by (cases "Skip b") auto
    show ?thesis
    proof (cases e)
      case (Some err)
      with s True "2.prems" show ?thesis by simp
    next
      case None
      from "2.IH"(1) [OF True] s None obtain x where x: "object x" and p: "b = x @ b'" by auto
      from s None True "2.prems" have "Skip_loop (asz - 1) b' = (b1, None)" by simp
      from "2.IH"(2) [OF True s [symmetric] None this]
      obtain xs where xs: "objects (asz - 1) xs" and q: "b' = xs @ b1" by blast
      from more [OF x xs] True have "objects asz (x @ xs)" by simp
      moreover from p q have "b = (x @ xs) @ b1" by simp
      ultimately show ?thesis by blast
    qed
  qed
qed

lemma example_object: "object [0x81, 0xa1, 0x6b, 0x90]"
proof -
  from fixstr [of 1 "[0x6b]"] have k: "object [0xa1, 0x6b]" by simp
  from fixarray [of 0 "[]", OF _ none] have a: "object [0x90]" by simp
  from more [OF k more [OF a none]] have "objects (2 * 1) [0xa1, 0x6b, 0x90]"
    by (simp add: numeral_2_eq_2)
  from fixmap [of 1, OF _ this] show ?thesis by simp
qed

text \<open>
  Claim C3: \<open>Skip\<close> consumes exactly one top-level object. A call succeeds with the
  tail \<open>tail\<close> exactly when its input is one object of the wire grammar followed by
  \<open>tail\<close>, and \<open>Skip_loop k\<close> exactly when it is \<open>k\<close> objects followed by the tail;
  the object is determined by the input. From the prefix \<open>Skip\<close> takes the pair
  of \<open>getSize\<close>, cuts off \<open>n\<close> bytes and skips \<open>m\<close> further objects one after the
  other. A map header that announces \<open>N\<close> pairs gives \<open>m = 2 * N\<close> in each of its
  three forms, and \<open>Skip\<close> of \<open>81 a1 6b 90\<close> (a map of one pair, the key \<open>k\<close> and the
  empty array) returns the empty tail.
\<close>

theorem Skip_consumes_one_object:
  "(Skip b = (tail, None) \<longleftrightarrow> (\<exists>x. object x \<and> b = x @ tail))
   \<and> (Skip_loop k b = (tail, None) \<longleftrightarrow> (\<exists>xs. objects k xs \<and> b = xs @ tail))
   \<and> (object x \<and> object y \<and> x @ t = y @ t' \<longrightarrow> x = y \<and> t = t')
   \<and> (getSize b = (n, m, None) \<and> n \<le> length b \<longrightarrow> Skip b = Skip_loop m (drop n b))
   \<and> Skip_loop 0 b = (b, None)
   \<and> (Skip b = (tail, None) \<longrightarrow> Skip_loop (Suc m) b = Skip_loop m tail)
   \<and> (Skip b = (tail, None) \<longrightarrow> (\<exists>p. p \<noteq> [] \<and> b = p @ tail) \<and> Skip (b @ t) = (tail @ t, None))
   \<and> (isfixmap lead \<longrightarrow> getSize (lead # rest) = (1, 2 * unat (rfixmap lead), None))
   \<and> (2 \<le> length rest \<longrightarrow> getSize (mmap16 # rest) = (3, 2 * unat (big_Uint16 rest), None))
   \<and> (4 \<le> length rest \<longrightarrow> getSize (mmap32 # rest) = (5, 2 * unat (big_Uint32 rest), None))
   \<and> Skip [0x81, 0xa1, 0x6b, 0x90] = ([], None)"
proof (intro conjI impI iffI)
  assume "Skip b = (tail, None)"
  then show "\<exists>x. object x \<and> b = x @ tail" by (rule Skip_object(1))
next
  assume "\<exists>x. object x \<and> b = x @ tail"
  then obtain x where "object x" and b: "b = x @ tail" by blast
  from Skip_frame(1) [OF object_Skip(1) [OF this(1)], of tail] b
  show "Skip b = (tail, None)" by simp
next
  assume "Skip_loop k b = (tail, None)"
  then show "\<exists>xs. objects k xs \<and> b = xs @ tail" by (rule Skip_object(2))
next
  assume "\<exists>xs. objects k xs \<and> b = xs @ tail"
  then obtain xs where "objects k xs" and b: "b = xs @ tail" by blast
  from Skip_frame(2) [OF object_Skip(2) [OF this(1)], of tail] b
  show "Skip_loop k b = (tail, None)" by simp
next
  assume a: "object x \<and> object y \<and> x @ t = y @ t'"
  from Skip_frame(1) [OF object_Skip(1), of x t] a have 1: "Skip (x @ t) = (t, None)" by simp
  from Skip_frame(1) [OF object_Skip(1), of y t'] a have 2: "Skip (y @ t') = (t', None)" by simp
  from 1 2 a show "t = t'" by simp
  with a show "x = y" by simp
next
  assume "getSize b = (n, m, None) \<and> n \<le> length b"
  then show "Skip b = Skip_loop m (drop n b)" by simp
next
  show "Skip_loop 0 b = (b, None)" by simp
next
  assume "Skip b = (tail, None)"
  then show "Skip_loop (Suc m) b = Skip_loop m tail" by simp
next
  assume "Skip b = (tail, None)"
  then show "\<exists>p. p \<noteq> [] \<and> b = p @ tail" by (rule Skip_suffix(1))
next
  assume "Skip b = (tail, None)"
  then show "Skip (b @ t) = (tail @ t, None)" by (rule Skip_frame(1))
next
  assume "isfixmap lead"
  then show "getSize (lead # rest) = (1, 2 * unat (rfixmap lead), None)" by (rule getSize_fixmap)
next
  assume "2 \<le> length rest"
  then show "getSize (mmap16 # rest) = (3, 2 * unat (big_Uint16 rest), None)" by (rule getSize_map16)
next
  assume "4 \<le> length rest"
  then show "getSize (mmap32 # rest) = (5, 2 * unat (big_Uint32 rest), None)" by (rule getSize_map32)
next
  show "Skip [0x81, 0xa1, 0x6b, 0x90] = ([], None)" by (simp add: sizes_eval)
qed

lemma ex_getSize: "getSize [0x81, 0xa1, 0x6b, 0x90] = (1, 2, None)"
  by (simp add: sizes_eval)

lemma ex_isfixmap: "isfixmap 0x81" "rfixmap 0x81 = 1"
  by (simp_all add: fix_defs)

theorem Skip_consumes_one_object_witness:
  "object [0x81, 0xa1, 0x6b, 0x90]
   \<and> Skip ([0x81, 0xa1, 0x6b, 0x90] @ [0xc0]) = ([0xc0], None)
   \<and> getSize [0x81, 0xa1, 0x6b, 0x90] = (1, 2, None)
   \<and> Skip [0x81, 0xa1, 0x6b, 0x90] = Skip_loop 2 (drop 1 [0x81, 0xa1, 0x6b, 0x90])
   \<and> (\<exists>xs. objects 2 xs \<and> drop 1 [0x81, 0xa1, 0x6b, 0x90] = xs @ [])
   \<and> Skip [0xa1, 0x6b] = ([], None)
   \<and> Skip_loop (Suc 0) [0xa1, 0x6b] = Skip_loop 0 []
   \<and> Skip ([0xa1, 0x6b] @ [0x90]) = ([] @ [0x90], None)
   \<and> isfixmap 0x81
   \<and> getSize [0x81, 0xa1, 0x6b, 0x90] = (1, 2 * unat (rfixmap 0x81), None)
   \<and> getSize [mmap16, 0x00, 0x01, 0xa1, 0x6b, 0x90]
       = (3, 2 * unat (big_Uint16 [0x00, 0x01, 0xa1, 0x6b, 0x90]), None)
   \<and> getSize [mmap32, 0x00, 0x00, 0x00, 0x01, 0xa1, 0x6b, 0x90]
       = (5, 2 * unat (big_Uint32 [0x00, 0x00, 0x00, 0x01, 0xa1, 0x6b, 0x90]), None)"
proof -
  note T = Skip_consumes_one_object
  note c1 = T [THEN conjunct1]
  note c2 = T [THEN conjunct2, THEN conjunct1]
  note c4 = T [THEN conjunct2, THEN conjunct2, THEN conjunct2, THEN conjunct1]
  note r4 = T [THEN conjunct2, THEN conjunct2, THEN conjunct2, THEN conjunct2]
  note c6 = r4 [THEN conjunct2, THEN conjunct1]
  note c7 = r4 [THEN conjunct2, THEN conjunct2, THEN conjunct1]
  note r7 = r4 [THEN conjunct2, THEN conjunct2, THEN conjunct2]
  note c8 = r7 [THEN conjunct1]
  note c9 = r7 [THEN conjunct2, THEN conjunct1]
  note c10 = r7 [THEN conjunct2, THEN conjunct2, THEN conjunct1]
  note c11 = r7 [THEN conjunct2, THEN conjunct2, THEN conjunct2]
  have k: "Skip [0xa1, 0x6b] = ([], None)" by (simp add: sizes_eval)
  have len: "1 \<le> length [0x81 :: byte, 0xa1, 0x6b, 0x90]" by simp
  have e: "\<exists>x. object x \<and> [0x81, 0xa1, 0x6b, 0x90] @ [0xc0] = x @ [0xc0]"
    using example_object by blast
  have a1: "Skip ([0x81, 0xa1, 0x6b, 0x90] @ [0xc0]) = ([0xc0], None)"
    by (rule c1 [THEN iffD2, OF e])
  have a2: "Skip [0x81, 0xa1, 0x6b, 0x90] = Skip_loop 2 (drop 1 [0x81, 0xa1, 0x6b, 0x90])"
    by (rule c4 [THEN mp, OF conjI [OF ex_getSize len]])
  have l: "Skip_loop 2 (drop 1 [0x81, 0xa1, 0x6b, 0x90]) = ([], None)"
    by (rule trans [OF a2 [symmetric] c11])
  have a3: "\<exists>xs. objects 2 xs \<and> drop 1 [0x81, 0xa1, 0x6b, 0x90] = xs @ []"
    by (rule c2 [THEN iffD1, OF l])
  have a4: "Skip_loop (Suc 0) [0xa1, 0x6b] = Skip_loop 0 []"
    by (rule c6 [THEN mp, OF k])
  have a5: "Skip ([0xa1, 0x6b] @ [0x90]) = ([] @ [0x90], None)"
    by (rule c7 [THEN mp, OF k, THEN conjunct2])
  have a6: "getSize [0x81, 0xa1, 0x6b, 0x90] = (1, 2 * unat (rfixmap 0x81), None)"
    by (rule c8 [THEN mp, OF ex_isfixmap(1)])
  have a7: "getSize [mmap16, 0x00, 0x01, 0xa1, 0x6b, 0x90]
       = (3, 2 * unat (big_Uint16 [0x00, 0x01, 0xa1, 0x6b, 0x90]), None)"
    by (rule c9 [THEN mp]) simp
  have a8: "getSize [mmap32, 0x00, 0x00, 0x00, 0x01, 0xa1, 0x6b, 0x90]
       = (5, 2 * unat (big_Uint32 [0x00, 0x00, 0x00, 0x01, 0xa1, 0x6b, 0x90]), None)"
    by (rule c10 [THEN mp]) simp
  show ?thesis
    by (intro conjI example_object a1 ex_getSize a2 a3 k a4 a5 ex_isfixmap(1) a6 a7 a8)
qed

section \<open>Properties of the Raw object\<close>

lemma ensure_meets_contract: "ensure_contract ensure"
  by (simp add: ensure_contract_def ensure_def)

text \<open>
  Claim C10: for every \<open>Raw\<close> value \<open>r\<close> and every destination \<open>b\<close>, \<open>MarshalMsg\<close>
  succeeds and appends exactly \<open>Msgsize r\<close> bytes to \<open>b\<close>: the nil byte \<open>0xc0\<close> when
  \<open>r\<close> is empty (and the size is 1), the bytes of \<open>r\<close> otherwise (and the size is
  their number). It holds with any \<open>ensure\<close> that meets its contract.
\<close>

theorem Raw_MarshalMsg_appends_Msgsize:
  assumes "ensure_contract ens"
  shows "MarshalMsg ens r b = (b @ (if r = [] then [0xc0] else r), None)
    \<and> length (fst (MarshalMsg ens r b)) = length b + Msgsize r
    \<and> Msgsize r = (if r = [] then 1 else length r)"
proof (cases "r = []")
  case True
  then show ?thesis by (simp add: MarshalMsg_def AppendNil_def mnil_def Msgsize_def)
next
  case False
  obtain o' l where e: "ens b (length r) = (o', l)" by (cases "ens b (length r)") auto
  have "case ens b (length r) of (o', l) \<Rightarrow>
      l = length b \<and> length o' = l + length r \<and> take l o' = b"
    using assms [unfolded ensure_contract_def, THEN spec, THEN spec, of b "length r"] .
  then have c: "l = length b \<and> length o' = l + length r \<and> take l o' = b"
    unfolding e prod.case .
  then have l: "l = length b" and len: "length o' = l + length r" and pre: "take l o' = b"
    by blast+
  have "fst (copy (drop l o') r) = r" using len by (simp add: copy_def)
  with False e pre have "MarshalMsg ens r b = (b @ r, None)"
    by (simp add: MarshalMsg_def)
  with False show ?thesis by (simp add: Msgsize_def)
qed

theorem Raw_MarshalMsg_appends_Msgsize_witness:
  "ensure_contract ensure
   \<and> MarshalMsg ensure [0x93, 1, 2, 3] [0xc3] = ([0xc3, 0x93, 1, 2, 3], None)
   \<and> Msgsize [0x93, 1, 2, 3] = 4
   \<and> MarshalMsg ensure [] [0xc3] = ([0xc3, 0xc0], None)
   \<and> Msgsize [] = 1"
  using Raw_MarshalMsg_appends_Msgsize [OF ensure_meets_contract, of "[0x93, 1, 2, 3]" "[0xc3]"]
    Raw_MarshalMsg_appends_Msgsize [OF ensure_meets_contract, of "[]" "[0xc3]"]
    ensure_meets_contract
  by simp

section \<open>Properties of the generator\<close>

text \<open>
  Claim C7: every term emitted through \<open>addConstant\<close> follows the three-state rule. In
  state \<open>assign\<close> it prints a newline and \<open>s = t\<close>, in state \<open>add\<close> a newline and
  \<open>s += t\<close>, in state \<open>expr\<close> it appends \<open> + t\<close>; the state afterwards is \<open>expr\<close> in
  all three. A term is emitted when the printer holds no error.
\<close>

theorem addConstant_three_state_rule:
  assumes "ok s"
  shows "addConstant t s =
      s\<lparr>p_w := p_w s @ (case state s of
                          assign \<Rightarrow> nl # ''s = '' @ t
                        | add \<Rightarrow> nl # ''s += '' @ t
                        | expr \<Rightarrow> '' + '' @ t),
        state := expr\<rparr>
    \<and> state (addConstant t s) = expr"
  using assms by (cases "state s") (simp_all add: addConstant_def ok_def print_def)

theorem addConstant_three_state_rule_witness:
  "ok (sizeGen_new\<lparr>state := add\<rparr>)
   \<and> addConstant ''5'' sizeGen_new = sizeGen_new\<lparr>p_w := nl # ''s = 5'', state := expr\<rparr>
   \<and> addConstant ''5'' (sizeGen_new\<lparr>state := add\<rparr>)
       = sizeGen_new\<lparr>p_w := nl # ''s += 5'', state := expr\<rparr>
   \<and> addConstant ''5'' (sizeGen_new\<lparr>state := expr\<rparr>)
       = sizeGen_new\<lparr>p_w := '' + 5'', state := expr\<rparr>"
  using addConstant_three_state_rule [of sizeGen_new "''5''"]
    addConstant_three_state_rule [of "sizeGen_new\<lparr>state := add\<rparr>" "''5''"]
    addConstant_three_state_rule [of "sizeGen_new\<lparr>state := expr\<rparr>" "''5''"]
  by (simp add: sizeGen_new_def ok_def)

section \<open>Properties of the transcoder\<close>

subsection \<open>Quoting\<close>

text \<open>
  Claim C4: \<open>rwQuoted\<close> is said to emit U+2028 and U+2029 as the six-character
  escapes (a backslash, then \<open>u2028\<close> or \<open>u2029\<close>) and
  never to let their UTF-8 bytes through. The escape is written only inside the test
  \<open>start < i\<close>, and \<open>start\<close> is not moved past the character. On the three bytes
  \<open>e2 80 a8\<close> of U+2028 alone the output is the quoted raw bytes; on \<open>a\<close> followed by
  U+2028 the escape is written, and then the whole input, raw bytes included, once more.
\<close>

theorem rwQuoted_line_separator_raw:
  "rwQuoted [] [0xE2, 0x80, 0xA8] = (5, [0x22, 0xE2, 0x80, 0xA8, 0x22], None)
   \<and> rwQuoted [] [0x61, 0xE2, 0x80, 0xA8]
       = (13, bytes_of (dq # ''a'' @ bs # ''u2028a'') @ [0xE2, 0x80, 0xA8] @ bytes_of [dq], None)"
  by code_simp

subsection \<open>Floating-point numbers\<close>

lemma bitlen_one: "bitlen 4503599627370496 = 53" "bitlen 4503599627370497 = 53"
  by (simp_all add: bitlen.simps)

lemma float32_of_one: "float32_of 0x3FF0000000000000 = 0x3F800000"
  by (simp add: float32_of_def Let_def round_even_def bitlen_one)

lemma float32_of_one_ulp: "float32_of 0x3FF0000000000001 = 0x3F800000"
  by (simp add: float32_of_def Let_def round_even_def bitlen_one)

text \<open>
  Claim C5: for every float64 read, the transcoder is said to write the shortest decimal
  that round-trips at 64 bits, so that parsing it back gives the value read.
  \<open>rwFloat64\<close> passes the bit size 32: the digits are those of \<open>float32(f)\<close>. The
  float64 values 1 and 1 + 2^-52 (bits \<open>3ff0000000000000\<close> and \<open>3ff0000000000001\<close>) both
  narrow to the float32 1, so whatever the digit generation is, they are written as the
  same text, and no parser gives both back. \<open>rwFloat32\<close>, for its part, formats the
  widened value at 64 bits.
\<close>

theorem rwFloat64_formats_float32:
  "rwFloat64 ftoa (Inr 0x3FF0000000000001) dst = rwFloat64 ftoa (Inr 0x3FF0000000000000) dst
   \<and> rwFloat64 ftoa (Inr 0x3FF0000000000001) [] =
       Some (length (ftoa (CHR ''f'') (- 1) 32 0x3F800000),
             bytes_of (ftoa (CHR ''f'') (- 1) 32 0x3F800000), None)
   \<and> (0x3FF0000000000001 :: 64 word) \<noteq> 0x3FF0000000000000
   \<and> rwFloat32 ftoa (Inr g) [] =
       Some (length (ftoa (CHR ''f'') (- 1) 64 (float64_of g)),
             bytes_of (ftoa (CHR ''f'') (- 1) 64 (float64_of g)), None)"
  by (simp add: rwFloat64_def rwFloat32_def AppendFloat_def float32_of_one float32_of_one_ulp
      bytes_of_def)

subsection \<open>The transcoding loop\<close>

lemma calls_loop: "calls f k r n = Some x \<Longrightarrow> rwNext_loop f r n = Some x"
proof (induction k arbitrary: r n)
  case 0
  then show ?case by simp
next
  case (Suc k)
  obtain nn e r' where st: "f r = (nn, e, r')" by (cases "f r") auto
  show ?case
  proof (cases e)
    case None
    with Suc st show ?thesis by (subst rwNext_loop.simps) simp
  next
    case (Some err)
    with Suc st show ?thesis by (subst rwNext_loop.simps) simp
  qed
qed

text \<open>
  Claim C8: when the loop stops because the reader returned \<open>io.EOF\<close>, \<open>WriteToJSON\<close>
  returns a nil error. The code does not: after \<open>io.EOF\<close> it sets the error to nil and
  then to the result of flushing the buffered writer. For a stream of one object that is
  written as 4 bytes (a nil, written as \<open>null\<close>) and a writer \<open>w\<close> that had to be
  wrapped and whose \<open>Write\<close> fails, the second call of \<open>rwNext\<close> returns \<open>io.EOF\<close>
  and \<open>WriteToJSON\<close> returns the error of the flush, against its own comment, by which
  an error is returned only if reading stops before \<open>io.EOF\<close>.
\<close>

theorem WriteToJSON_eof_flush_error:
  "calls drain (Suc (Suc 0)) [4] 0 = Some (4, EOF, [])
   \<and> WriteToJSON drain True Flush_fails [4] = Some (4, Some (ErrIO 1))"
proof -
  have c: "calls drain (Suc (Suc 0)) [4] 0 = Some (4, EOF, [])" by simp
  from calls_loop [OF c] have "rwNext_loop drain [4] 0 = Some (4, EOF, [])" .
  with c show ?thesis by (simp add: WriteToJSON_def Flush_fails_def)
qed

text \<open>
  What the code returns in general: when some call of \<open>rwNext\<close> returns an error, the
  loop stops and \<open>WriteToJSON\<close> returns. If it stopped on \<open>io.EOF\<close>, the error
  returned is nil when \<open>w\<close> was used as it is, and the result of flushing the buffered
  writer when \<open>w\<close> was wrapped; if it stopped on any other error, that error is
  returned.
\<close>

lemma WriteToJSON_stops:
  assumes "calls rwNext k r 0 = Some (n, err, r')"
  shows "WriteToJSON rwNext buffered Flush r =
    Some (n, if err = EOF then (if buffered then Flush r' else None) else Some err)"
  using calls_loop [OF assms] by (simp add: WriteToJSON_def)

lemma WriteToJSON_stops_examples:
  "calls drain (Suc (Suc 0)) [4] 0 = Some (4, EOF, [])
   \<and> WriteToJSON drain False Flush_fails [4] = Some (4, None)
   \<and> WriteToJSON drain True Flush_ok [4] = Some (4, None)
   \<and> calls broken (Suc (Suc 0)) [4] 0 = Some (4, ErrShortBytes, [])
   \<and> WriteToJSON broken True Flush_ok [4] = Some (4, Some ErrShortBytes)"
proof -
  have c: "calls drain (Suc (Suc 0)) [4] 0 = Some (4, EOF, [])" by simp
  have d: "calls broken (Suc (Suc 0)) [4] 0 = Some (4, ErrShortBytes, [])" by simp
  show ?thesis
    using WriteToJSON_stops [OF c, of False Flush_fails] WriteToJSON_stops [OF c, of True Flush_ok]
      WriteToJSON_stops [OF d, of True Flush_ok] c d
    by (simp add: Flush_ok_def)
qed

subsection \<open>Extensions\<close>

lemma length_base64_StdEncoding:
  "length (base64_StdEncoding data) = 4 * ((length data + 2) div 3)"
proof (induction data rule: base64_StdEncoding.induct)
  case (1 a b c rest)
  have "(length (a # b # c # rest) + 2) div 3 = Suc ((length rest + 2) div 3)" by simp
  with 1 show ?case by simp
qed simp_all

text \<open>
  Claim C9: for an extension whose type tag has no registered factory the transcoder
  emits exactly \<open>{"type:"N,"data":"B"}\<close>: the first key is the literal \<open>"type:"\<close>
  with the colon inside the quotes, \<open>N\<close> is the tag in base 10 and \<open>B\<close> the payload in
  standard base64 with padding, four characters for every three bytes or part of them.
\<close>

theorem rwExtension_unregistered_object:
  assumes "extensionReg et = None"
  shows "rwExtension extensionReg (Inr et) (Inr data) dst =
      (19 + length (Itoa (sint et)) + length data,
       dst @ bytes_of (''{'' @ dq # ''type:'' @ [dq]) @ bytes_of (Itoa (sint et))
         @ bytes_of ('','' @ dq # ''data'' @ dq # '':'' @ [dq]) @ base64_StdEncoding data
         @ bytes_of (dq # ''}''),
       None)
    \<and> length (base64_StdEncoding data) = 4 * ((length data + 2) div 3)"
  using assms
  by (simp add: rwExtension_def Let_def AppendInt_def bytes_of_def length_base64_StdEncoding)

theorem rwExtension_unregistered_object_witness:
  "rwExtension extensionReg_empty (Inr 5) (Inr (bytes_of ''hi'')) [] =
      (22, bytes_of (''{'' @ dq # ''type:'' @ dq # ''5,'' @ dq # ''data'' @ dq # '':'' @ dq # ''aGk='' @ dq # ''}''), None)
   \<and> rwExtension extensionReg_empty (Inr (- 3)) (Inr [0xff, 0xfe, 0xfd, 0xfc]) [] =
      (25, bytes_of (''{'' @ dq # ''type:'' @ dq # ''-3,'' @ dq # ''data'' @ dq # '':'' @ dq # ''//79/A=='' @ dq # ''}''), None)"
  using rwExtension_unregistered_object [of extensionReg_empty 5 "bytes_of ''hi''" "[]"]
    rwExtension_unregistered_object [of extensionReg_empty "- 3" "[0xff, 0xfe, 0xfd, 0xfc]" "[]"]
  by (simp add: bytes_of_def Itoa_def b64_def encodeStd_def extensionReg_empty_def)

section \<open>The size of a one-field struct\<close>

lemma body_value_example: "body_value (nl # ''s = 1 + 2 + msgp.Int32Size'') = Some 8"
  by (simp add: body_value_def nl_def term_value_def is_digit_def digit_value_def size_const_def)

lemmas gen_defs = gBase_def baseSizeExpr_def addConstant_def ok_def print_def builtinSize_def
  AppendMapHeader_def AppendArrayHeader_def AppendString_def Itoa_def bytes_of_def

text \<open>
  Claim C6: over the non-tuple struct with the one field \<open>x\<close> of primitive \<open>Int32\<close> the
  generator emits a body that assigns \<open>s\<close> a constant right-hand side evaluating to
  \<open>8 = 1 + 2 + 5\<close>, with no loop and no branch: 1 byte for the map header, 2 for the
  encoded tag \<open>x\<close>, and the 5 bytes of the constant \<open>msgp.Int32Size\<close>, which the text
  names rather than spells out.
\<close>

theorem gStruct_int32_field_size:
  "Execute_body env (Struct [StructField ''x'' (Base (int32_elem v))] False) sizeGen_new =
      Some \<lparr>p_w = nl # ''s = 1 + 2 + msgp.Int32Size'', p_err = False, state = expr, idents = 0\<rparr>
   \<and> body_value (nl # ''s = 1 + 2 + msgp.Int32Size'') = Some 8
   \<and> length (AppendMapHeader [] 1) = 1
   \<and> length (AppendString [] ''x'') = 2
   \<and> size_const ''msgp.Int32Size'' = Some 5"
  by (simp add: Execute_body_def sizeGen_new_def int32_elem_def gen_defs body_value_example)
    (simp add: size_const_def)

end
